theory Spec2Isabelle
  imports Main "HOL-Library.Word" "HOL-Library.Multiset"
begin

unbundle bit_operations_syntax

section \<open>JavaScript strings\<close>

text \<open>
  A JavaScript string is a sequence of UTF-16 code units; \<open>s.length\<close> counts code units
  and \<open>s.slice(a, b)\<close> cuts at code-unit positions. A string is therefore a list of
  16-bit words here, and \<open>js\<close> turns an ASCII literal of the source into one.
\<close>

type_synonym js_string = "16 word list"

definition js :: "string \<Rightarrow> js_string" where
  "js s = map (\<lambda>c. of_nat (of_char c)) s"

text \<open>The one-character literal U+2026 (horizontal ellipsis) that both normalisers append.\<close>

definition ellipsis :: js_string where
  "ellipsis = [0x2026]"

text \<open>
  \<open>String.prototype.trim\<close> removes WhiteSpace and LineTerminator code points
  (ECMAScript, 12.2 and 12.3) from both ends.
\<close>

definition isWhiteSpace :: "16 word \<Rightarrow> bool" where
  "isWhiteSpace c \<longleftrightarrow>
     c \<in> {0x0009, 0x000A, 0x000B, 0x000C, 0x000D, 0x0020, 0x00A0, 0x1680,
          0x2028, 0x2029, 0x202F, 0x205F, 0x3000, 0xFEFF}
     \<or> (0x2000 \<le> c \<and> c \<le> 0x200A)"

definition trim :: "js_string \<Rightarrow> js_string" where
  "trim s = rev (dropWhile isWhiteSpace (rev (dropWhile isWhiteSpace s)))"

text \<open>
  \<open>s.replace(/<[^>]*>/g, "")\<close>: scanning from the left, a \<open><\<close> that is followed later by
  a \<open>>\<close> is removed together with everything up to the first such \<open>>\<close>; any other code
  unit is kept.
\<close>

function stripTags :: "js_string \<Rightarrow> js_string" where
  "stripTags [] = []"
| "stripTags (c # cs) =
     (if c = 0x3C \<and> 0x3E \<in> set cs
      then stripTags (tl (dropWhile (\<lambda>x. x \<noteq> 0x3E) cs))
      else c # stripTags cs)"
  by pat_completeness auto
termination
proof (relation "measure length")
  show "wf (measure length)" by simp
next
  fix c :: "16 word" and cs :: js_string
  have "length (tl (dropWhile (\<lambda>x. x \<noteq> 0x3E) cs)) \<le> length cs"
    using length_dropWhile_le [of "\<lambda>x. x \<noteq> 0x3E" cs] by simp
  then show "(tl (dropWhile (\<lambda>x. x \<noteq> 0x3E) cs), c # cs) \<in> measure length"
    by simp
next
  fix c :: "16 word" and cs :: js_string
  show "(cs, c # cs) \<in> measure length" by simp
qed

text \<open>
  \<open>s.replace(/\n{2,}/g, " ")\<close>: every maximal run of two or more line feeds becomes one
  space; a single line feed stays.
\<close>

function collapseNewlines :: "js_string \<Rightarrow> js_string" where
  "collapseNewlines [] = []"
| "collapseNewlines (c # cs) =
     (if c = 0x0A \<and> cs \<noteq> [] \<and> hd cs = 0x0A
      then 0x20 # collapseNewlines (dropWhile (\<lambda>x. x = 0x0A) cs)
      else c # collapseNewlines cs)"
  by pat_completeness auto
termination
proof (relation "measure length")
  show "wf (measure length)" by simp
next
  fix c :: "16 word" and cs :: js_string
  have "length (dropWhile (\<lambda>x. x = 0x0A) cs) \<le> length cs"
    by (rule length_dropWhile_le)
  then show "(dropWhile (\<lambda>x. x = 0x0A) cs, c # cs) \<in> measure length"
    by simp
next
  fix c :: "16 word" and cs :: js_string
  show "(cs, c # cs) \<in> measure length" by simp
qed

section \<open>The identity function: news-types.ts\<close>

subsection \<open>UTF-8 encoding of a string, as \<open>hash.update(link)\<close> performs it\<close>

text \<open>
  Node encodes the string as UTF-8 before hashing: a surrogate pair becomes the four
  bytes of its code point, an unpaired surrogate becomes U+FFFD (EF BF BD).
\<close>

definition isHigh :: "16 word \<Rightarrow> bool" where
  "isHigh c \<longleftrightarrow> 0xD800 \<le> c \<and> c \<le> 0xDBFF"

definition isLow :: "16 word \<Rightarrow> bool" where
  "isLow c \<longleftrightarrow> 0xDC00 \<le> c \<and> c \<le> 0xDFFF"

definition utf8_of_codepoint :: "32 word \<Rightarrow> 8 word list" where
  "utf8_of_codepoint n =
     (if n < 0x80 then [ucast n]
      else if n < 0x800 then
        [ucast (0xC0 OR drop_bit 6 n), ucast (0x80 OR (n AND 0x3F))]
      else if n < 0x10000 then
        [ucast (0xE0 OR drop_bit 12 n), ucast (0x80 OR (drop_bit 6 n AND 0x3F)),
         ucast (0x80 OR (n AND 0x3F))]
      else
        [ucast (0xF0 OR drop_bit 18 n), ucast (0x80 OR (drop_bit 12 n AND 0x3F)),
         ucast (0x80 OR (drop_bit 6 n AND 0x3F)), ucast (0x80 OR (n AND 0x3F))])"

fun utf8 :: "js_string \<Rightarrow> 8 word list" where
  "utf8 [] = []"
| "utf8 [c] =
     (if isHigh c \<or> isLow c then utf8_of_codepoint 0xFFFD else utf8_of_codepoint (ucast c))"
| "utf8 (c # d # cs) =
     (if isHigh c \<and> isLow d
      then utf8_of_codepoint
             (0x10000 + push_bit 10 (ucast c - 0xD800) + (ucast d - 0xDC00)) @ utf8 cs
      else if isHigh c \<or> isLow c then utf8_of_codepoint 0xFFFD @ utf8 (d # cs)
      else utf8_of_codepoint (ucast c) @ utf8 (d # cs))"

subsection \<open>SHA-256 (FIPS 180-4), as \<open>crypto.createHash("sha256")\<close> computes it\<close>

definition rotr :: "nat \<Rightarrow> 32 word \<Rightarrow> 32 word" where
  "rotr n x = (drop_bit n x) OR (push_bit (32 - n) x)"

definition Ch :: "32 word \<Rightarrow> 32 word \<Rightarrow> 32 word \<Rightarrow> 32 word" where
  "Ch x y z = (x AND y) XOR (NOT x AND z)"

definition Maj :: "32 word \<Rightarrow> 32 word \<Rightarrow> 32 word \<Rightarrow> 32 word" where
  "Maj x y z = (x AND y) XOR (x AND z) XOR (y AND z)"

definition Sigma0 :: "32 word \<Rightarrow> 32 word" where
  "Sigma0 x = rotr 2 x XOR rotr 13 x XOR rotr 22 x"

definition Sigma1 :: "32 word \<Rightarrow> 32 word" where
  "Sigma1 x = rotr 6 x XOR rotr 11 x XOR rotr 25 x"

definition sigma0 :: "32 word \<Rightarrow> 32 word" where
  "sigma0 x = rotr 7 x XOR rotr 18 x XOR drop_bit 3 x"

definition sigma1 :: "32 word \<Rightarrow> 32 word" where
  "sigma1 x = rotr 17 x XOR rotr 19 x XOR drop_bit 10 x"

definition K256 :: "32 word list" where
  "K256 =
    [0x428A2F98, 0x71374491, 0xB5C0FBCF, 0xE9B5DBA5, 0x3956C25B, 0x59F111F1, 0x923F82A4, 0xAB1C5ED5,
     0xD807AA98, 0x12835B01, 0x243185BE, 0x550C7DC3, 0x72BE5D74, 0x80DEB1FE, 0x9BDC06A7, 0xC19BF174,
     0xE49B69C1, 0xEFBE4786, 0x0FC19DC6, 0x240CA1CC, 0x2DE92C6F, 0x4A7484AA, 0x5CB0A9DC, 0x76F988DA,
     0x983E5152, 0xA831C66D, 0xB00327C8, 0xBF597FC7, 0xC6E00BF3, 0xD5A79147, 0x06CA6351, 0x14292967,
     0x27B70A85, 0x2E1B2138, 0x4D2C6DFC, 0x53380D13, 0x650A7354, 0x766A0ABB, 0x81C2C92E, 0x92722C85,
     0xA2BFE8A1, 0xA81A664B, 0xC24B8B70, 0xC76C51A3, 0xD192E819, 0xD6990624, 0xF40E3585, 0x106AA070,
     0x19A4C116, 0x1E376C08, 0x2748774C, 0x34B0BCB5, 0x391C0CB3, 0x4ED8AA4A, 0x5B9CCA4F, 0x682E6FF3,
     0x748F82EE, 0x78A5636F, 0x84C87814, 0x8CC70208, 0x90BEFFFA, 0xA4506CEB, 0xBEF9A3F7, 0xC67178F2]"

type_synonym sha_state = "32 word \<times> 32 word \<times> 32 word \<times> 32 word \<times> 32 word \<times> 32 word \<times> 32 word \<times> 32 word"

definition H256 :: sha_state where
  "H256 = (0x6A09E667, 0xBB67AE85, 0x3C6EF372, 0xA54FF53A,
           0x510E527F, 0x9B05688C, 0x1F83D9AB, 0x5BE0CD19)"

text \<open>Padding: a 1 bit, zeros up to 56 modulo 64 bytes, the bit length as 64 bits big-endian.\<close>

definition be64 :: "64 word \<Rightarrow> 8 word list" where
  "be64 n = map (\<lambda>i. ucast (drop_bit (8 * (7 - i)) n)) [0..<8]"

definition pad :: "8 word list \<Rightarrow> 8 word list" where
  "pad m = m @ [0x80] @ replicate ((64 - (length m + 9) mod 64) mod 64) 0 @ be64 (8 * of_nat (length m))"

fun be32_words :: "8 word list \<Rightarrow> 32 word list" where
  "be32_words (a # b # c # d # bs) =
     (push_bit 24 (ucast a) OR push_bit 16 (ucast b) OR push_bit 8 (ucast c) OR ucast d)
       # be32_words bs"
| "be32_words _ = []"

text \<open>The message schedule: sixteen words of the block, extended to sixty-four.\<close>

fun extend :: "nat \<Rightarrow> 32 word list \<Rightarrow> 32 word list" where
  "extend 0 w = w"
| "extend (Suc n) w =
     (let t = length w
      in extend n (w @ [sigma1 (w ! (t - 2)) + w ! (t - 7) + sigma0 (w ! (t - 15)) + w ! (t - 16)]))"

definition round256 :: "sha_state \<Rightarrow> 32 word \<times> 32 word \<Rightarrow> sha_state" where
  "round256 s kw =
     (case s of (a, b, c, d, e, f, g, h) \<Rightarrow>
        let t1 = h + Sigma1 e + Ch e f g + fst kw + snd kw;
            t2 = Sigma0 a + Maj a b c
        in (t1 + t2, a, b, c, d + t1, e, f, g))"

definition add_state :: "sha_state \<Rightarrow> sha_state \<Rightarrow> sha_state" where
  "add_state s s' =
     (case s of (a, b, c, d, e, f, g, h) \<Rightarrow>
      case s' of (a', b', c', d', e', f', g', h') \<Rightarrow>
        (a + a', b + b', c + c', d + d', e + e', f + f', g + g', h + h'))"

definition compress :: "sha_state \<Rightarrow> 8 word list \<Rightarrow> sha_state" where
  "compress s block =
     add_state s (foldl round256 s (zip K256 (extend 48 (be32_words block))))"

function blocks :: "8 word list \<Rightarrow> 8 word list list" where
  "blocks bs = (if length bs < 64 then [] else take 64 bs # blocks (drop 64 bs))"
  by pat_completeness auto
termination
  by (relation "measure length") auto

declare blocks.simps [simp del]

definition be32 :: "32 word \<Rightarrow> 8 word list" where
  "be32 x = [ucast (drop_bit 24 x), ucast (drop_bit 16 x), ucast (drop_bit 8 x), ucast x]"

definition sha256 :: "8 word list \<Rightarrow> 8 word list" where
  "sha256 m =
     (case foldl compress H256 (blocks (pad m)) of (a, b, c, d, e, f, g, h) \<Rightarrow>
        be32 a @ be32 b @ be32 c @ be32 d @ be32 e @ be32 f @ be32 g @ be32 h)"

text \<open>\<open>digest("hex")\<close>: two lower-case hexadecimal digits per byte.\<close>

definition hexdigit :: "nat \<Rightarrow> 16 word" where
  "hexdigit n = (if n < 10 then of_nat (48 + n) else of_nat (87 + n))"

definition hex :: "8 word list \<Rightarrow> js_string" where
  "hex bs = concat (map (\<lambda>b. [hexdigit (unat b div 16), hexdigit (unat b mod 16)]) bs)"

text \<open>
  \<^verbatim>\<open>crypto.createHash("sha256").update(link).digest("hex").slice(0, 16)\<close>
\<close>

definition makeId :: "js_string \<Rightarrow> js_string" where
  "makeId link = take 16 (hex (sha256 (utf8 link)))"

text \<open>
  The shared entity. \<open>id\<close> is named \<open>id_item\<close> here. \<open>publishedAt\<close> is kept as the
  time value (milliseconds since the epoch) whose \<open>toISOString()\<close> rendering the source
  stores: every item is built with \<open>new Date(...).toISOString()\<close>, which succeeds only
  on a valid time value, and the comparators read the field back with
  \<open>new Date(s).getTime()\<close>, which returns that time value.
\<close>

record NewsItem =
  id_item :: js_string
  title :: js_string
  link :: js_string
  source :: js_string
  publishedAt :: int
  summary :: js_string

section \<open>Errors and promises\<close>

datatype error =
  NetworkError | Timeout | HttpStatus nat | ParseError | SyntaxError | TypeError | RangeError

text \<open>
  The outcome of awaiting a promise: \<open>None\<close> when it never settles,
  \<open>Some (Inl e)\<close> when it rejects with \<open>e\<close>, \<open>Some (Inr v)\<close> when it fulfils with \<open>v\<close>.
\<close>

type_synonym 'a promise = "(error + 'a) option"

text \<open>
  \<open>Promise.all\<close>: rejects as soon as one member rejects, fulfils with all values once all
  members have fulfilled, and otherwise never settles. When several members reject, the
  rejection reported here is the one of the first member in list order.
\<close>

fun Promise_all :: "'a promise list \<Rightarrow> 'a list promise" where
  "Promise_all [] = Some (Inr [])"
| "Promise_all (p # ps) =
     (case p of
        Some (Inl e) \<Rightarrow> Some (Inl e)
      | None \<Rightarrow> (case Promise_all ps of Some (Inl e) \<Rightarrow> Some (Inl e) | _ \<Rightarrow> None)
      | Some (Inr v) \<Rightarrow>
          (case Promise_all ps of
             Some (Inr vs) \<Rightarrow> Some (Inr (v # vs))
           | Some (Inl e) \<Rightarrow> Some (Inl e)
           | None \<Rightarrow> None))"

section \<open>What one request observes from outside the repository\<close>

text \<open>
  The parsed feed that \<open>rss-parser\<close> hands over; absent fields are \<open>None\<close>. The fields
  \<open>link\<close> and \<open>title\<close> of an entry are named \<open>rss_link\<close> and \<open>rss_title\<close>, the fields
  \<open>title\<close>, \<open>link\<close> and \<open>items\<close> of a feed \<open>feed_title\<close>, \<open>feed_link\<close> and \<open>feed_items\<close>.
\<close>

record rss_item =
  rss_link :: "js_string option"
  rss_title :: "js_string option"
  contentSnippet :: "js_string option"
  content :: "js_string option"
  isoDate :: "js_string option"

record rss_feed =
  feed_title :: "js_string option"
  feed_link :: "js_string option"
  feed_items :: "rss_item list"

text \<open>
  The \<open>data\<close> object of a Reddit post, typed as the interface \<open>RedditPost\<close> declares it;
  \<open>title\<close>, named \<open>post_title\<close> here, is optional because the source reads it with \<open>?.\<close>.
  \<open>created_utc\<close> is in whole seconds.
\<close>

record RedditPost =
  post_title :: "js_string option"
  url :: js_string
  permalink :: js_string
  selftext :: js_string
  is_self :: bool
  stickied :: bool
  created_utc :: int
  subreddit :: js_string
  domain :: js_string

text \<open>
  The value of \<open>JSON.parse(body)\<close>: a listing with its children, or some other JSON value,
  on which \<open>listing.data.children\<close> cannot be iterated.
\<close>

datatype json = NotAListing | Listing "RedditPost list"

text \<open>
  What one \<open>https.get\<close> of \<open>fetchJSON\<close> yields for a URL.
  \<^item> \<open>RequestError e\<close>: the request fails before a response arrives (an \<open>error\<close> event,
    which the 10 s timer also leads to by destroying the request, or an exception of
    \<open>https.get\<close> itself on an address it does not accept).
  \<^item> \<open>Response status loc late b\<close>: a response arrives, with its status code and its
    \<open>Location\<close> header. The handler \<open>req.on("error", reject)\<close> and the timer
    \<open>req.setTimeout(10_000, ...)\<close> of the request stay armed after the response: no branch
    of the callback removes them, consumes a redirect's response or destroys the request.
    \<open>late\<close> is \<open>Some e\<close> when the request fails with \<open>e\<close> after its response has arrived
    and before the promise has been settled in another way (the connection breaks, or it
    stays open and silent until the timer fires), and \<open>None\<close> when no such failure comes
    first. Whether it does is decided by the upstream and the network, not by the code.
    \<open>b\<close> is the value of \<open>JSON.parse\<close> on the body, \<open>None\<close> when it throws. The body of a
    response with status 200 is taken to come to its \<open>end\<close> event unless the request fails
    before.
\<close>

datatype http_reply =
  RequestError error
| Response (statusCode: nat) (location: "js_string option") (lateFailure: "error option")
    (body: "json option")

text \<open>
  \<^item> \<open>URL_hostname s\<close> is \<open>new URL(s).hostname\<close>, \<open>None\<close> when the constructor throws;
  \<^item> \<open>Date_parse s\<close> is the time value of \<open>new Date(s)\<close>, \<open>None\<close> when it is NaN;
  \<^item> \<open>parseURL u\<close> is the settled result of \<open>parser.parseURL(u)\<close>, which has a timeout;
  \<^item> \<open>new_Date u i\<close> is the time value of \<open>new Date()\<close> while entry \<open>i\<close> of feed \<open>u\<close> is
    normalised;
  \<^item> \<open>https_get u\<close> is the upstream's answer to a request for \<open>u\<close>;
  \<^item> the four \<open>now\<close> fields are the readings of \<open>Date.now()\<close> at the validity check and
    at the store of each source module.
\<close>

record env =
  URL_hostname :: "js_string \<Rightarrow> js_string option"
  Date_parse :: "js_string \<Rightarrow> int option"
  parseURL :: "js_string \<Rightarrow> error + rss_feed"
  new_Date :: "js_string \<Rightarrow> nat \<Rightarrow> int"
  https_get :: "js_string \<Rightarrow> http_reply"
  rss_now_check :: int
  rss_now_store :: int
  reddit_now_check :: int
  reddit_now_store :: int

section \<open>Deduplication and sorting, as written in rss.ts and in route.ts\<close>

text \<open>
  \<^verbatim>\<open>for (const item of allItems) { if (!seen.has(item.link)) { seen.add(item.link); unique.push(item); } }\<close>
\<close>

fun dedupLoop :: "js_string set \<Rightarrow> NewsItem list \<Rightarrow> NewsItem list \<Rightarrow> NewsItem list" where
  "dedupLoop seen unique [] = unique"
| "dedupLoop seen unique (item # rest) =
     (if link item \<notin> seen
      then dedupLoop (insert (link item) seen) (unique @ [item]) rest
      else dedupLoop seen unique rest)"

definition dedupByLink :: "NewsItem list \<Rightarrow> NewsItem list" where
  "dedupByLink allItems = dedupLoop {} [] allItems"

text \<open>
  The comparator
  \<^verbatim>\<open>(a, b) => new Date(b.publishedAt).getTime() - new Date(a.publishedAt).getTime()\<close>
\<close>

definition comparePublishedAt :: "NewsItem \<Rightarrow> NewsItem \<Rightarrow> int" where
  "comparePublishedAt a b = publishedAt b - publishedAt a"

text \<open>
  \<open>Array.prototype.sort\<close> is stable, and with a consistent comparator it puts \<open>a\<close> before
  \<open>b\<close> whenever \<open>cmp(a, b) < 0\<close>. Only one ordering of the elements does both; the stable
  insertion sort below computes it.
\<close>

fun insertBy :: "('a \<Rightarrow> 'a \<Rightarrow> int) \<Rightarrow> 'a \<Rightarrow> 'a list \<Rightarrow> 'a list" where
  "insertBy cmp x [] = [x]"
| "insertBy cmp x (y # ys) = (if cmp x y \<le> 0 then x # y # ys else y # insertBy cmp x ys)"

definition sortBy :: "('a \<Rightarrow> 'a \<Rightarrow> int) \<Rightarrow> 'a list \<Rightarrow> 'a list" where
  "sortBy cmp xs = foldr (insertBy cmp) xs []"

section \<open>The RSS source: rss.ts\<close>

definition RSS_FEED_URLS :: "js_string list" where
  "RSS_FEED_URLS =
    [js ''https://rss.nytimes.com/services/xml/rss/nyt/HomePage.xml'',
     js ''https://feeds.bbci.co.uk/news/rss.xml'',
     js ''https://www.theguardian.com/world/rss'',
     js ''https://rss.cnn.com/rss/edition.rss'',
     js ''https://feeds.nbcnews.com/nbcnews/public/news'']"

record CacheEntry =
  data :: "NewsItem list"
  expiresAt :: int

definition CACHE_TTL_MS :: int where
  "CACHE_TTL_MS = 5 * 60 * 1000"

text \<open>
  The module state: the variable \<open>cache\<close>, and a log of the URLs handed to
  \<open>parser.parseURL\<close> so far. The log is not in the source; it records the calls that
  leave the module.
\<close>

record rss_module =
  rss_cache :: "CacheEntry option"
  parseURL_calls :: "js_string list"

text \<open>\<open>a || b\<close> for a left operand that is \<open>undefined\<close> or a string.\<close>

definition orElse :: "js_string option \<Rightarrow> js_string \<Rightarrow> js_string" where
  "orElse a b = (case a of None \<Rightarrow> b | Some s \<Rightarrow> if s \<noteq> [] then s else b)"

definition extractSource :: "env \<Rightarrow> rss_feed \<Rightarrow> error + js_string" where
  "extractSource E feed =
     (case map_option trim (feed_title feed) of
        Some t \<Rightarrow>
          if t \<noteq> [] then Inr t
          else (case URL_hostname E (case feed_link feed of None \<Rightarrow> [] | Some l \<Rightarrow> l) of
                  None \<Rightarrow> Inl TypeError | Some h \<Rightarrow> Inr h)
      | None \<Rightarrow>
          (case URL_hostname E (case feed_link feed of None \<Rightarrow> [] | Some l \<Rightarrow> l) of
             None \<Rightarrow> Inl TypeError | Some h \<Rightarrow> Inr h))"

text \<open>
  The constant \<open>summary\<close> of \<open>normaliseItem\<close>:
  \<^verbatim>\<open>item.contentSnippet?.trim() || item.content?.replace(/<[^>]*>/g, "").trim() || ""\<close>
\<close>

definition summaryText :: "rss_item \<Rightarrow> js_string" where
  "summaryText item =
     orElse (map_option trim (contentSnippet item))
       (orElse (map_option (\<lambda>c. trim (stripTags c)) (content item)) [])"

text \<open>
  \<open>normaliseItem\<close>: \<open>Inr None\<close> is the \<open>return null\<close>, \<open>Inl RangeError\<close> the exception of
  \<open>toISOString()\<close> on an invalid date. \<open>now\<close> is the time value of \<open>new Date()\<close>.
\<close>

definition normaliseItem :: "env \<Rightarrow> int \<Rightarrow> rss_item \<Rightarrow> js_string \<Rightarrow> error + NewsItem option" where
  "normaliseItem E now item src =
     (let link' = map_option trim (rss_link item) in
      if link' = None \<or> link' = Some [] then Inr None
      else
        let title' = orElse (map_option trim (rss_title item)) (js ''(no title)'');
            summary' = summaryText item;
            date =
              (case isoDate item of
                 None \<Rightarrow> Some now
               | Some d \<Rightarrow> if d \<noteq> [] then Date_parse E d else Some now)
        in case date of
             None \<Rightarrow> Inl RangeError
           | Some publishedAt' \<Rightarrow>
               Inr (Some \<lparr>id_item = makeId (the link'), title = title', link = the link',
                          source = src, publishedAt = publishedAt',
                          summary = (if length summary' > 500
                                     then take 497 summary' @ ellipsis else summary')\<rparr>))"

text \<open>
  The loop of \<open>fetchFeed\<close> over \<open>feed.items\<close>; \<open>i\<close> counts the entries, \<open>items\<close> is the
  array built so far. An exception leaves the loop.
\<close>

fun normaliseEntries ::
  "env \<Rightarrow> (nat \<Rightarrow> int) \<Rightarrow> js_string \<Rightarrow> nat \<Rightarrow> rss_item list \<Rightarrow> NewsItem list \<Rightarrow> error + NewsItem list" where
  "normaliseEntries E clock src i [] items = Inr items"
| "normaliseEntries E clock src i (entry # rest) items =
     (case normaliseItem E (clock i) entry src of
        Inl e \<Rightarrow> Inl e
      | Inr None \<Rightarrow> normaliseEntries E clock src (Suc i) rest items
      | Inr (Some normalised) \<Rightarrow> normaliseEntries E clock src (Suc i) rest (items @ [normalised]))"

text \<open>The body of the \<open>try\<close> block of \<open>fetchFeed\<close>.\<close>

definition fetchFeed_try :: "env \<Rightarrow> js_string \<Rightarrow> error + NewsItem list" where
  "fetchFeed_try E u =
     (case parseURL E u of
        Inl e \<Rightarrow> Inl e
      | Inr feed \<Rightarrow>
          (case extractSource E feed of
             Inl e \<Rightarrow> Inl e
           | Inr src \<Rightarrow> normaliseEntries E (new_Date E u) src 0 (feed_items feed) []))"

text \<open>\<open>fetchFeed\<close>: the \<open>catch\<close> block returns the empty array.\<close>

definition fetchFeed :: "env \<Rightarrow> js_string \<Rightarrow> NewsItem list promise" where
  "fetchFeed E u =
     (case fetchFeed_try E u of Inl err \<Rightarrow> Some (Inr []) | Inr items \<Rightarrow> Some (Inr items))"

text \<open>\<^verbatim>\<open>cache && Date.now() < cache.expiresAt\<close>\<close>

definition cacheValid :: "CacheEntry option \<Rightarrow> int \<Rightarrow> bool" where
  "cacheValid cache now = (case cache of None \<Rightarrow> False | Some c \<Rightarrow> now < expiresAt c)"

text \<open>
  \<open>getNews\<close> returns the promise's outcome and the module state it leaves. A fetch calls
  \<open>fetchFeed\<close> on every configured address, and each \<open>fetchFeed\<close> calls
  \<open>parser.parseURL\<close> on its address, so the log grows by \<open>RSS_FEED_URLS\<close>. The cache is
  written only after \<open>Promise.all\<close> has fulfilled.
\<close>

definition getNews :: "env \<Rightarrow> rss_module \<Rightarrow> NewsItem list promise \<times> rss_module" where
  "getNews E m =
     (if cacheValid (rss_cache m) (rss_now_check E)
      then (Some (Inr (data (the (rss_cache m)))), m)
      else
        let m' = m\<lparr>parseURL_calls := parseURL_calls m @ RSS_FEED_URLS\<rparr> in
        case Promise_all (map (fetchFeed E) RSS_FEED_URLS) of
          None \<Rightarrow> (None, m')
        | Some (Inl e) \<Rightarrow> (Some (Inl e), m')
        | Some (Inr results) \<Rightarrow>
            (let allItems = concat results;
                 unique = sortBy comparePublishedAt (dedupByLink allItems)
             in (Some (Inr unique),
                 m'\<lparr>rss_cache :=
                      Some \<lparr>data = unique, expiresAt = rss_now_store E + CACHE_TTL_MS\<rparr>\<rparr>)))"

section \<open>The Reddit source: reddit.ts\<close>

definition SUBREDDITS :: "js_string list" where
  "SUBREDDITS =
    [js ''worldnews'', js ''news'', js ''technology'', js ''science'', js ''finance'',
     js ''politics'']"

definition POSTS_PER_SUB :: nat where
  "POSTS_PER_SUB = 25"

text \<open>The decimal rendering of a number inside a template literal.\<close>

fun decimal :: "nat \<Rightarrow> js_string" where
  "decimal n = (if n < 10 then [of_nat (48 + n)] else decimal (n div 10) @ [of_nat (48 + n mod 10)])"

declare decimal.simps [simp del]

text \<open>
  The module state: the variable \<open>cache\<close>, and a log of the addresses on which
  \<open>fetchSubreddit\<close> has called \<open>fetchJSON\<close> so far. The log is not in the source.
\<close>

record reddit_module =
  reddit_cache :: "CacheEntry option"
  fetchJSON_calls :: "js_string list"

text \<open>
  The test of the redirect branch:
  \<^verbatim>\<open>res.statusCode && res.statusCode >= 300 && res.statusCode < 400 && res.headers.location\<close>
\<close>

definition isRedirect :: "http_reply \<Rightarrow> bool" where
  "isRedirect r =
     (case r of
        RequestError e \<Rightarrow> False
      | Response status loc late b \<Rightarrow>
          status \<noteq> 0 \<and> 300 \<le> status \<and> status < 400 \<and> loc \<noteq> None \<and> loc \<noteq> Some [])"

text \<open>
  \<open>fetchJSON\<close> returns the outcome of the promise it creates.
  \<^item> On a redirect it calls itself on the \<open>Location\<close> header and hands the inner promise's
    outcome to \<open>resolve\<close> and \<open>reject\<close>; nothing counts the hops. The promise is settled
    by whichever comes first: the inner outcome, or a failure of this hop's own request,
    whose \<open>error\<close> handler and timer are still armed. When neither ever comes, the promise
    stays pending: the value \<open>None\<close>.
  \<^item> On any other status than 200 it rejects at once.
  \<^item> On status 200 it reads the body and settles on \<open>end\<close> with the parsed value or the
    exception of \<open>JSON.parse\<close>, unless the request fails before.
\<close>

partial_function (option) fetchJSON :: "(js_string \<Rightarrow> http_reply) \<Rightarrow> js_string \<Rightarrow> json promise" where
  "fetchJSON get u =
     (case get u of
        RequestError e \<Rightarrow> Some (Inl e)
      | Response status loc late b \<Rightarrow>
          if isRedirect (Response status loc late b) then
            (case late of Some e \<Rightarrow> Some (Inl e) | None \<Rightarrow> fetchJSON get (the loc))
          else if status \<noteq> 200 then Some (Inl (HttpStatus status))
          else
            (case late of
               Some e \<Rightarrow> Some (Inl e)
             | None \<Rightarrow> (case b of None \<Rightarrow> Some (Inl SyntaxError) | Some v \<Rightarrow> Some (Inr v))))"

text \<open>The constant \<open>cleaned\<close>: \<^verbatim>\<open>data.selftext.replace(/\n{2,}/g, " ").trim()\<close>\<close>

definition cleanedSelftext :: "RedditPost \<Rightarrow> js_string" where
  "cleanedSelftext d = trim (collapseNewlines (selftext d))"

text \<open>
  \<open>normalisePost\<close>: \<open>Inr None\<close> is the \<open>return null\<close>; \<open>Inl RangeError\<close> is the exception of
  \<open>toISOString()\<close> when \<open>created_utc * 1000\<close> is outside the range of time values.
\<close>

definition normalisePost :: "RedditPost \<Rightarrow> error + NewsItem option" where
  "normalisePost d =
     (if stickied d \<or> (case post_title d of None \<Rightarrow> True | Some t \<Rightarrow> trim t = [])
      then Inr None
      else
        let link' = (if is_self d then js ''https://www.reddit.com'' @ permalink d else url d) in
        if link' = [] then Inr None
        else
          let title' = trim (the (post_title d));
              source' = js ''r/'' @ subreddit d
          in if \<bar>created_utc d * 1000\<bar> > 8640000000000000 then Inl RangeError
             else
               let publishedAt' = created_utc d * 1000;
                   summary' =
                     (if selftext d \<noteq> [] then
                        let cleaned = cleanedSelftext d
                        in if length cleaned > 500 then take 497 cleaned @ ellipsis else cleaned
                      else [])
               in Inr (Some \<lparr>id_item = makeId link', title = title', link = link',
                             source = source', publishedAt = publishedAt',
                             summary = summary'\<rparr>))"

text \<open>The loop of \<open>fetchSubreddit\<close> over \<open>listing.data.children\<close>.\<close>

fun normalisePosts :: "RedditPost list \<Rightarrow> NewsItem list \<Rightarrow> error + NewsItem list" where
  "normalisePosts [] items = Inr items"
| "normalisePosts (post # rest) items =
     (case normalisePost post of
        Inl e \<Rightarrow> Inl e
      | Inr None \<Rightarrow> normalisePosts rest items
      | Inr (Some normalised) \<Rightarrow> normalisePosts rest (items @ [normalised]))"

definition listingURL :: "js_string \<Rightarrow> js_string" where
  "listingURL name =
     js ''https://www.reddit.com/r/'' @ name @ js ''/hot.json?limit='' @ decimal POSTS_PER_SUB
       @ js ''&raw_json=1''"

text \<open>The body of the \<open>try\<close> block of \<open>fetchSubreddit\<close>.\<close>

definition fetchSubreddit_try :: "env \<Rightarrow> js_string \<Rightarrow> NewsItem list promise" where
  "fetchSubreddit_try E name =
     (case fetchJSON (https_get E) (listingURL name) of
        None \<Rightarrow> None
      | Some (Inl e) \<Rightarrow> Some (Inl e)
      | Some (Inr NotAListing) \<Rightarrow> Some (Inl TypeError)
      | Some (Inr (Listing children)) \<Rightarrow> Some (normalisePosts children []))"

definition fetchSubreddit :: "env \<Rightarrow> js_string \<Rightarrow> NewsItem list promise" where
  "fetchSubreddit E name =
     (case fetchSubreddit_try E name of
        None \<Rightarrow> None
      | Some (Inl err) \<Rightarrow> Some (Inr [])
      | Some (Inr items) \<Rightarrow> Some (Inr items))"

text \<open>
  \<open>getRedditNews\<close>, like \<open>getNews\<close> but without the deduplication and the sort: the
  flattened results are stored and returned as they are.
\<close>

definition getRedditNews :: "env \<Rightarrow> reddit_module \<Rightarrow> NewsItem list promise \<times> reddit_module" where
  "getRedditNews E m =
     (if cacheValid (reddit_cache m) (reddit_now_check E)
      then (Some (Inr (data (the (reddit_cache m)))), m)
      else
        let m' = m\<lparr>fetchJSON_calls := fetchJSON_calls m @ map listingURL SUBREDDITS\<rparr> in
        case Promise_all (map (fetchSubreddit E) SUBREDDITS) of
          None \<Rightarrow> (None, m')
        | Some (Inl e) \<Rightarrow> (Some (Inl e), m')
        | Some (Inr results) \<Rightarrow>
            (let allItems = concat results
             in (Some (Inr allItems),
                 m'\<lparr>reddit_cache :=
                      Some \<lparr>data = allItems, expiresAt = reddit_now_store E + CACHE_TTL_MS\<rparr>\<rparr>)))"

section \<open>The aggregate endpoint: app/api/news/route.ts\<close>

datatype response =
  Response_200 nat "NewsItem list"
| Response_500

record server =
  rss :: rss_module
  reddit :: reddit_module

text \<open>
  \<open>Response_200 n xs\<close> is the body \<open>{ok: true, count: n, items: xs}\<close> with status 200,
  \<open>Response_500\<close> the body \<open>{ok: false, error: ...}\<close> with status 500.
  \<open>GET\<close> starts both source fetches, awaits \<open>Promise.all\<close> of the two, merges, removes
  duplicate links and sorts. A rejection goes to the \<open>catch\<close> block and becomes the
  response with status 500. \<open>None\<close> means that no response is ever sent.
\<close>

definition GET :: "env \<Rightarrow> server \<Rightarrow> response option \<times> server" where
  "GET E srv =
     (let (p1, m1) = getNews E (rss srv);
          (p2, m2) = getRedditNews E (reddit srv);
          srv' = \<lparr>rss = m1, reddit = m2\<rparr>
      in case Promise_all [p1, p2] of
           None \<Rightarrow> (None, srv')
         | Some (Inl err) \<Rightarrow> (Some Response_500, srv')
         | Some (Inr rs) \<Rightarrow>
             (let rssItems = rs ! 0;
                  redditItems = rs ! 1;
                  allItems = rssItems @ redditItems;
                  unique = sortBy comparePublishedAt (dedupByLink allItems)
              in (Some (Response_200 (length unique) unique), srv')))"

section \<open>Notions used in the statements\<close>

text \<open>Most recent first: no item is older than a later one.\<close>

definition descending :: "NewsItem list \<Rightarrow> bool" where
  "descending xs = sorted_wrt (\<lambda>a b. publishedAt b \<le> publishedAt a) xs"

text \<open>Sample data: an item, an upstream that is down, and a server whose two caches are warm.\<close>

definition demoItem :: "string \<Rightarrow> string \<Rightarrow> int \<Rightarrow> NewsItem" where
  "demoItem l s t =
     \<lparr>id_item = makeId (js l), title = js ''T'', link = js l, source = js s, publishedAt = t,
      summary = []\<rparr>"

definition idleEnv :: "int \<Rightarrow> env" where
  "idleEnv t =
     \<lparr>URL_hostname = (\<lambda>s. None), Date_parse = (\<lambda>s. None),
      parseURL = (\<lambda>u. Inl NetworkError), new_Date = (\<lambda>u i. t),
      https_get = (\<lambda>u. RequestError NetworkError),
      rss_now_check = t, rss_now_store = t, reddit_now_check = t, reddit_now_store = t\<rparr>"

definition warmServer :: server where
  "warmServer =
     \<lparr>rss = \<lparr>rss_cache = Some \<lparr>data = [demoItem ''B'' ''BBC'' 30, demoItem ''A'' ''BBC'' 10],
                                expiresAt = 1000\<rparr>,
             parseURL_calls = []\<rparr>,
      reddit = \<lparr>reddit_cache = Some \<lparr>data = [demoItem ''A'' ''r/news'' 20, demoItem ''C'' ''r/news'' 40],
                                      expiresAt = 1000\<rparr>,
                fetchJSON_calls = []\<rparr>\<rparr>"

text \<open>A text of 501 letters, a feed entry and a self post that carry it.\<close>

definition longText :: js_string where
  "longText = replicate 501 0x61"

definition longItem :: rss_item where
  "longItem =
     \<lparr>rss_link = Some (js ''https://example.com/a''), rss_title = Some (js ''T''),
      contentSnippet = Some longText, content = None, isoDate = None\<rparr>"

definition shortItem :: rss_item where
  "shortItem =
     \<lparr>rss_link = Some (js ''https://example.com/a''), rss_title = Some (js ''T''),
      contentSnippet = Some (js ''Hi''), content = None, isoDate = None\<rparr>"

definition longPost :: RedditPost where
  "longPost =
     \<lparr>post_title = Some (js ''T''), url = js ''https://www.reddit.com/r/news/comments/1/t/'',
      permalink = js ''/r/news/comments/1/t/'', selftext = longText, is_self = True,
      stickied = False, created_utc = 1700000000, subreddit = js ''news'',
      domain = js ''self.news''\<rparr>"

text \<open>A self post whose \<open>permalink\<close> and \<open>url\<close> are both empty.\<close>

definition selfPostWithoutLink :: RedditPost where
  "selfPostWithoutLink =
     \<lparr>post_title = Some (js ''T''), url = [], permalink = [], selftext = [], is_self = True,
      stickied = False, created_utc = 1700000000, subreddit = js ''news'',
      domain = js ''self.news''\<rparr>"


text \<open>
  A redirect is followed through when the request that received it does not fail before
  the rest of the chain has settled. \<open>chainEnds n get u\<close>: after at most \<open>n\<close> redirects that
  are followed through, there is an answer that is not such a redirect: not a redirect
  at all, or a redirect whose request fails first.
\<close>

definition followedThrough :: "http_reply \<Rightarrow> bool" where
  "followedThrough r =
     (case r of
        RequestError e \<Rightarrow> False
      | Response status loc late b \<Rightarrow> isRedirect (Response status loc late b) \<and> late = None)"

fun chainEnds :: "nat \<Rightarrow> (js_string \<Rightarrow> http_reply) \<Rightarrow> js_string \<Rightarrow> bool" where
  "chainEnds 0 get u = (\<not> followedThrough (get u))"
| "chainEnds (Suc n) get u =
     (if followedThrough (get u) then chainEnds n get (the (location (get u))) else True)"




text \<open>What a feed contributes to \<open>getNews\<close>, and what \<open>getNews\<close> computes when it fetches.\<close>

definition feedItems :: "env \<Rightarrow> js_string \<Rightarrow> NewsItem list" where
  "feedItems E u = (case fetchFeed_try E u of Inl e \<Rightarrow> [] | Inr items \<Rightarrow> items)"

definition freshNews :: "env \<Rightarrow> NewsItem list" where
  "freshNews E = sortBy comparePublishedAt (dedupByLink (concat (map (feedItems E) RSS_FEED_URLS)))"

text \<open>The same for a subreddit and for \<open>getRedditNews\<close>.\<close>

definition subredditItems :: "env \<Rightarrow> js_string \<Rightarrow> NewsItem list" where
  "subredditItems E name =
     (case fetchSubreddit_try E name of Some (Inr items) \<Rightarrow> items | _ \<Rightarrow> [])"

definition freshReddit :: "env \<Rightarrow> NewsItem list" where
  "freshReddit E = concat (map (subredditItems E) SUBREDDITS)"

text \<open>
  Every listing request reaches, after finitely many redirects that are followed through,
  an answer that is not a redirect, or a request that fails.
\<close>

definition settles :: "env \<Rightarrow> bool" where
  "settles E = (\<forall>name \<in> set SUBREDDITS. \<exists>n. chainEnds n (https_get E) (listingURL name))"

text \<open>The cached RSS items, if any, have distinct links and are in descending order.\<close>

definition cacheOK :: "rss_module \<Rightarrow> bool" where
  "cacheOK m =
     (case rss_cache m of
        None \<Rightarrow> True
      | Some c \<Rightarrow> distinct (map link (data c)) \<and> descending (data c))"

text \<open>The state of a process that has just started: both \<open>cache\<close> variables are \<open>null\<close>.\<close>

definition coldServer :: server where
  "coldServer =
     \<lparr>rss = \<lparr>rss_cache = None, parseURL_calls = []\<rparr>,
      reddit = \<lparr>reddit_cache = None, fetchJSON_calls = []\<rparr>\<rparr>"

text \<open>
  An environment in which the second and the fourth feed fail, every other feed has one
  entry whose link is the feed's own address and which carries no date, the clock reads
  \<open>t\<close> plus the length of that address while the entry is normalised, and Reddit is
  unreachable.
\<close>

definition flakyEnv :: "int \<Rightarrow> env" where
  "flakyEnv t =
     \<lparr>URL_hostname = (\<lambda>s. None), Date_parse = (\<lambda>s. None),
      parseURL = (\<lambda>u. if u = RSS_FEED_URLS ! 1 then Inl NetworkError
                       else if u = RSS_FEED_URLS ! 3 then Inl Timeout
                       else Inr \<lparr>feed_title = Some (js ''Feed''), feed_link = None,
                                 feed_items = [\<lparr>rss_link = Some u, rss_title = Some (js ''T''),
                                                 contentSnippet = None, content = None,
                                                 isoDate = None\<rparr>]\<rparr>),
      new_Date = (\<lambda>u i. t + int (length u)),
      https_get = (\<lambda>u. RequestError NetworkError),
      rss_now_check = t, rss_now_store = t + 1, reddit_now_check = t, reddit_now_store = t + 1\<rparr>"

definition flakyItem :: "int \<Rightarrow> js_string \<Rightarrow> NewsItem" where
  "flakyItem t u =
     \<lparr>id_item = makeId u, title = js ''T'', link = u, source = js ''Feed'',
      publishedAt = t + int (length u), summary = []\<rparr>"

text \<open>
  An upstream that answers every listing request with the same two link posts, the older
  one first.
\<close>

definition twoPosts :: "RedditPost list" where
  "twoPosts =
     [\<lparr>post_title = Some (js ''T''), url = js ''https://example.com/a'', permalink = js ''/r/x/1'',
       selftext = [], is_self = False, stickied = False, created_utc = 100,
       subreddit = js ''news'', domain = js ''example.com''\<rparr>,
      \<lparr>post_title = Some (js ''T''), url = js ''https://example.com/b'', permalink = js ''/r/x/2'',
       selftext = [], is_self = False, stickied = False, created_utc = 200,
       subreddit = js ''news'', domain = js ''example.com''\<rparr>]"

definition echoEnv :: "int \<Rightarrow> env" where
  "echoEnv t =
     \<lparr>URL_hostname = (\<lambda>s. None), Date_parse = (\<lambda>s. None),
      parseURL = (\<lambda>u. Inl NetworkError), new_Date = (\<lambda>u i. t),
      https_get = (\<lambda>u. Response 200 None None (Some (Listing twoPosts))),
      rss_now_check = t, rss_now_store = t + 1, reddit_now_check = t, reddit_now_store = t + 1\<rparr>"

definition echoItems :: "NewsItem list" where
  "echoItems =
     [\<lparr>id_item = makeId (js ''https://example.com/a''), title = js ''T'',
       link = js ''https://example.com/a'', source = js ''r/'' @ js ''news'',
       publishedAt = 100000, summary = []\<rparr>,
      \<lparr>id_item = makeId (js ''https://example.com/b''), title = js ''T'',
       link = js ''https://example.com/b'', source = js ''r/'' @ js ''news'',
       publishedAt = 200000, summary = []\<rparr>]"

section \<open>Deduplication and sorting\<close>

lemma dedupLoop_acc: "dedupLoop seen unique xs = unique @ dedupLoop seen [] xs"
proof (induction xs arbitrary: seen unique)
  case Nil
  show ?case by simp
next
  case (Cons x xs)
  show ?case
  proof (cases "link x \<in> seen")
    case True
    then show ?thesis using Cons.IH [of seen unique] by simp
  next
    case False
    then show ?thesis
      using Cons.IH [of "insert (link x) seen" "unique @ [x]"]
            Cons.IH [of "insert (link x) seen" "[x]"] by simp
  qed
qed

lemma dedupLoop_Cons:
  "dedupLoop seen [] (x # xs) =
     (if link x \<in> seen then dedupLoop seen [] xs
      else x # dedupLoop (insert (link x) seen) [] xs)"
  using dedupLoop_acc [of "insert (link x) seen" "[x]" xs] by simp

lemma set_dedupLoop: "link ` set (dedupLoop seen [] xs) = link ` set xs - seen"
  by (induction xs arbitrary: seen) (auto simp: dedupLoop_Cons simp del: dedupLoop.simps(2))

lemma dedupLoop_subset: "set (dedupLoop seen [] xs) \<subseteq> set xs"
  by (induction xs arbitrary: seen) (auto simp: dedupLoop_Cons simp del: dedupLoop.simps(2))

lemma distinct_dedupLoop: "distinct (map link (dedupLoop seen [] xs))"
proof (induction xs arbitrary: seen)
  case Nil
  show ?case by simp
next
  case (Cons x xs)
  have "link x \<notin> link ` set (dedupLoop (insert (link x) seen) [] xs)"
    by (simp add: set_dedupLoop)
  with Cons.IH show ?case by (simp add: dedupLoop_Cons del: dedupLoop.simps(2))
qed

lemma find_dedupLoop:
  "l \<notin> seen \<Longrightarrow> find (\<lambda>i. link i = l) (dedupLoop seen [] xs) = find (\<lambda>i. link i = l) xs"
proof (induction xs arbitrary: seen)
  case Nil
  show ?case by simp
next
  case (Cons x xs)
  then show ?case by (auto simp: dedupLoop_Cons simp del: dedupLoop.simps(2))
qed

lemma mset_insertBy: "mset (insertBy cmp x ys) = add_mset x (mset ys)"
  by (induction ys) auto

lemma mset_sortBy: "mset (sortBy cmp xs) = mset xs"
  by (induction xs) (auto simp: sortBy_def mset_insertBy)

lemma set_sortBy: "set (sortBy cmp xs) = set xs"
  using mset_sortBy [of cmp xs] by (metis set_mset_mset)

lemma distinct_map_sortBy: "distinct (map f (sortBy cmp xs)) = distinct (map f xs)"
proof -
  have "mset (map f (sortBy cmp xs)) = mset (map f xs)"
    by (simp add: mset_sortBy)
  then show ?thesis by (rule mset_eq_imp_distinct_iff)
qed

lemma descending_insertBy:
  "descending ys \<Longrightarrow> descending (insertBy comparePublishedAt x ys)"
proof (induction ys)
  case Nil
  show ?case by (simp add: descending_def)
next
  case (Cons y ys)
  have s: "set (insertBy comparePublishedAt x ys) = insert x (set ys)"
    using mset_insertBy [of comparePublishedAt x ys] by (metis set_mset_mset set_mset_add_mset_insert)
  from Cons show ?case
    unfolding descending_def by (auto simp: comparePublishedAt_def s)
qed

lemma descending_sortBy: "descending (sortBy comparePublishedAt xs)"
proof (induction xs)
  case Nil
  show ?case by (simp add: sortBy_def descending_def)
next
  case (Cons x xs)
  then show ?case using descending_insertBy [of "sortBy comparePublishedAt xs" x]
    by (simp add: sortBy_def)
qed

lemma descending_adjacent:
  "descending xs \<Longrightarrow> Suc i < length xs \<Longrightarrow> publishedAt (xs ! Suc i) \<le> publishedAt (xs ! i)"
  unfolding descending_def by (simp add: sorted_wrt_iff_nth_less)

lemma filter_distinct_key:
  "distinct (map f ys) \<Longrightarrow> x \<in> set ys \<Longrightarrow> filter (\<lambda>y. f y = f x) ys = [x]"
proof (induction ys)
  case Nil
  then show ?case by simp
next
  case (Cons y ys)
  show ?case
  proof (cases "y = x")
    case True
    have "f x \<notin> f ` set ys" using Cons.prems(1) True by simp
    then have "filter (\<lambda>y. f y = f x) ys = []"
      unfolding filter_empty_conv by (metis imageI)
    then show ?thesis using True by simp
  next
    case False
    then have "x \<in> set ys" using Cons.prems(2) by simp
    moreover have "f y \<noteq> f x" using Cons.prems(1) \<open>x \<in> set ys\<close> by auto
    ultimately show ?thesis using Cons by simp
  qed
qed

lemma find_Some_set: "find P xs = Some x \<Longrightarrow> P x \<and> x \<in> set xs"
  by (induction xs) (auto split: if_splits)

lemma find_append_Some: "find P xs = Some y \<Longrightarrow> find P (xs @ ys) = Some y"
  by (induction xs) (auto split: if_splits)

lemma Promise_all_pair:
  "Promise_all [p1, p2] = Some (Inr rs) \<Longrightarrow> \<exists>a b. p1 = Some (Inr a) \<and> p2 = Some (Inr b) \<and> rs = [a, b]"
  by (auto split: option.splits sum.splits)

lemma GET_200:
  assumes "fst (GET E srv) = Some (Response_200 n its)"
  shows "\<exists>rssItems redditItems.
           fst (getNews E (rss srv)) = Some (Inr rssItems) \<and>
           fst (getRedditNews E (reddit srv)) = Some (Inr redditItems) \<and>
           its = sortBy comparePublishedAt (dedupByLink (rssItems @ redditItems)) \<and>
           n = length its"
proof -
  obtain p1 m1 where g1: "getNews E (rss srv) = (p1, m1)" by (cases "getNews E (rss srv)")
  obtain p2 m2 where g2: "getRedditNews E (reddit srv) = (p2, m2)"
    by (cases "getRedditNews E (reddit srv)")
  from assms g1 g2 obtain rs where rs: "Promise_all [p1, p2] = Some (Inr rs)"
    and its: "its = sortBy comparePublishedAt (dedupByLink (rs ! 0 @ rs ! 1))" and n: "n = length its"
    unfolding GET_def Let_def by (auto simp del: Promise_all.simps split: option.splits sum.splits)
  from Promise_all_pair [OF rs] obtain a b where "p1 = Some (Inr a)" "p2 = Some (Inr b)" "rs = [a, b]"
    by blast
  with g1 g2 its n show ?thesis by simp
qed


lemma GET_warmServer:
  "fst (GET (idleEnv 0) warmServer) =
     Some (Response_200 3 [demoItem ''C'' ''r/news'' 40, demoItem ''B'' ''BBC'' 30, demoItem ''A'' ''BBC'' 10])"
  by (simp add: GET_def getNews_def getRedditNews_def cacheValid_def idleEnv_def warmServer_def
        dedupByLink_def sortBy_def comparePublishedAt_def demoItem_def js_def)

text \<open>
  C2. The items of every response of the news endpoint have pairwise different links.
\<close>

theorem news_links_unique:
  assumes "fst (GET E srv) = Some (Response_200 n its)"
  shows "distinct (map link its)"
proof -
  from GET_200 [OF assms] obtain r d
    where "its = sortBy comparePublishedAt (dedupByLink (r @ d))" by blast
  then show ?thesis
    by (simp add: distinct_map_sortBy dedupByLink_def distinct_dedupLoop)
qed

theorem news_links_unique_witness:
  "fst (GET (idleEnv 0) warmServer) =
     Some (Response_200 3 [demoItem ''C'' ''r/news'' 40, demoItem ''B'' ''BBC'' 30, demoItem ''A'' ''BBC'' 10])
   \<and> distinct (map link [demoItem ''C'' ''r/news'' 40, demoItem ''B'' ''BBC'' 30, demoItem ''A'' ''BBC'' 10])"
  using news_links_unique [OF GET_warmServer] GET_warmServer by simp

text \<open>
  C3. The items of every response of the news endpoint are in descending order of
  \<open>publishedAt\<close>: each item is at least as recent as the one after it.
\<close>

theorem news_sorted_descending:
  assumes "fst (GET E srv) = Some (Response_200 n its)" and "Suc i < length its"
  shows "publishedAt (its ! i) \<ge> publishedAt (its ! Suc i)"
proof -
  from GET_200 [OF assms(1)] obtain r d
    where "its = sortBy comparePublishedAt (dedupByLink (r @ d))" by blast
  then have "descending its" by (simp add: descending_sortBy)
  then show ?thesis using assms(2) by (rule descending_adjacent)
qed

theorem news_sorted_descending_witness:
  "fst (GET (idleEnv 0) warmServer) =
     Some (Response_200 3 [demoItem ''C'' ''r/news'' 40, demoItem ''B'' ''BBC'' 30, demoItem ''A'' ''BBC'' 10])
   \<and> Suc 0 < length [demoItem ''C'' ''r/news'' 40, demoItem ''B'' ''BBC'' 30, demoItem ''A'' ''BBC'' 10]
   \<and> publishedAt ([demoItem ''C'' ''r/news'' 40, demoItem ''B'' ''BBC'' 30, demoItem ''A'' ''BBC'' 10] ! 0)
       \<ge> publishedAt ([demoItem ''C'' ''r/news'' 40, demoItem ''B'' ''BBC'' 30, demoItem ''A'' ''BBC'' 10] ! Suc 0)"
  using news_sorted_descending [OF GET_warmServer, of 0] GET_warmServer by simp

text \<open>
  C5. When the per-source results contain a link more than once, the response keeps exactly
  one item with that link: the first one in the concatenation of the RSS items and the
  Reddit items. In particular the RSS item is kept when RSS has the link at all.
\<close>

theorem first_source_wins:
  assumes "fst (getNews E (rss srv)) = Some (Inr rssItems)"
    and "fst (getRedditNews E (reddit srv)) = Some (Inr redditItems)"
    and "find (\<lambda>i. link i = l) (rssItems @ redditItems) = Some x"
  shows "\<exists>its. fst (GET E srv) = Some (Response_200 (length its) its)
           \<and> filter (\<lambda>i. link i = l) its = [x]
           \<and> (l \<in> link ` set rssItems \<longrightarrow> x \<in> set rssItems)"
proof -
  let ?d = "dedupByLink (rssItems @ redditItems)"
  let ?its = "sortBy comparePublishedAt ?d"
  obtain p1 m1 where g1: "getNews E (rss srv) = (p1, m1)" by (cases "getNews E (rss srv)")
  obtain p2 m2 where g2: "getRedditNews E (reddit srv) = (p2, m2)"
    by (cases "getRedditNews E (reddit srv)")
  have get: "fst (GET E srv) = Some (Response_200 (length ?its) ?its)"
    using assms(1,2) g1 g2 by (simp add: GET_def Let_def)
  have lx: "link x = l" and xin: "x \<in> set (rssItems @ redditItems)"
    using find_Some_set [OF assms(3)] by simp_all
  have "find (\<lambda>i. link i = l) ?d = Some x"
    using assms(3) by (simp add: dedupByLink_def find_dedupLoop)
  then have "x \<in> set ?d" by (simp add: find_Some_set)
  then have x_its: "x \<in> set ?its" by (simp add: set_sortBy)
  have "distinct (map link ?its)"
    by (simp add: distinct_map_sortBy dedupByLink_def distinct_dedupLoop)
  from filter_distinct_key [OF this x_its] lx
  have one: "filter (\<lambda>i. link i = l) ?its = [x]" by simp
  have first: "l \<in> link ` set rssItems \<longrightarrow> x \<in> set rssItems"
  proof
    assume "l \<in> link ` set rssItems"
    then have "find (\<lambda>i. link i = l) rssItems \<noteq> None"
      by (auto simp: find_None_iff)
    then obtain y where y: "find (\<lambda>i. link i = l) rssItems = Some y" by blast
    then have "find (\<lambda>i. link i = l) (rssItems @ redditItems) = Some y"
      by (rule find_append_Some)
    with assms(3) have "y = x" by simp
    with find_Some_set [OF y] show "x \<in> set rssItems" by simp
  qed
  from get one first show ?thesis by blast
qed

theorem first_source_wins_witness:
  "find (\<lambda>i. link i = js ''A'')
     ([demoItem ''B'' ''BBC'' 30, demoItem ''A'' ''BBC'' 10]
        @ [demoItem ''A'' ''r/news'' 20, demoItem ''C'' ''r/news'' 40])
     = Some (demoItem ''A'' ''BBC'' 10)
   \<and> (\<exists>its. fst (GET (idleEnv 0) warmServer) = Some (Response_200 (length its) its)
          \<and> filter (\<lambda>i. link i = js ''A'') its = [demoItem ''A'' ''BBC'' 10])
   \<and> js ''A'' \<in> link ` set [demoItem ''B'' ''BBC'' 30, demoItem ''A'' ''BBC'' 10]
   \<and> demoItem ''A'' ''BBC'' 10 \<in> set [demoItem ''B'' ''BBC'' 30, demoItem ''A'' ''BBC'' 10]"
proof -
  have r: "fst (getNews (idleEnv 0) (rss warmServer))
             = Some (Inr [demoItem ''B'' ''BBC'' 30, demoItem ''A'' ''BBC'' 10])"
    by (simp add: getNews_def cacheValid_def idleEnv_def warmServer_def)
  have d: "fst (getRedditNews (idleEnv 0) (reddit warmServer))
             = Some (Inr [demoItem ''A'' ''r/news'' 20, demoItem ''C'' ''r/news'' 40])"
    by (simp add: getRedditNews_def cacheValid_def idleEnv_def warmServer_def)
  have f: "find (\<lambda>i. link i = js ''A'')
             ([demoItem ''B'' ''BBC'' 30, demoItem ''A'' ''BBC'' 10]
                @ [demoItem ''A'' ''r/news'' 20, demoItem ''C'' ''r/news'' 40])
             = Some (demoItem ''A'' ''BBC'' 10)"
    by (simp add: demoItem_def js_def)
  have m: "js ''A'' \<in> link ` set [demoItem ''B'' ''BBC'' 30, demoItem ''A'' ''BBC'' 10]"
    by (simp add: demoItem_def)
  from first_source_wins [OF r d f] f m show ?thesis by blast
qed

section \<open>The normalisers\<close>

lemma trim_clean: "s \<noteq> [] \<Longrightarrow> \<not> isWhiteSpace (hd s) \<Longrightarrow> \<not> isWhiteSpace (last s) \<Longrightarrow> trim s = s"
proof -
  assume a: "s \<noteq> []" "\<not> isWhiteSpace (hd s)" "\<not> isWhiteSpace (last s)"
  have 1: "dropWhile isWhiteSpace s = s" using a by (simp add: dropWhile_eq_self_iff)
  have 2: "dropWhile isWhiteSpace (rev s) = rev s"
    using a by (simp add: dropWhile_eq_self_iff hd_rev)
  show ?thesis by (simp add: trim_def 1 2)
qed

lemma collapseNewlines_clean: "0x0A \<notin> set s \<Longrightarrow> collapseNewlines s = s"
  by (induction s) auto

lemma not_ws_a: "\<not> isWhiteSpace 0x61"
  by (simp add: isWhiteSpace_def)

lemma trim_longText: "trim longText = longText"
  by (rule trim_clean) (simp_all add: longText_def not_ws_a hd_replicate last_replicate)

lemma length_longText: "length longText = 501"
  by (simp add: longText_def)

lemma normaliseItem_summary:
  assumes "normaliseItem E now item src = Inr (Some n)"
  shows "summary n = (if 500 < length (summaryText item)
                      then take 497 (summaryText item) @ ellipsis else summaryText item)"
  using assms unfolding normaliseItem_def Let_def
  by (auto split: if_splits option.splits)

lemma normalisePost_summary:
  assumes "normalisePost d = Inr (Some n)"
  shows "summary n =
           (if selftext d \<noteq> [] then
              if 500 < length (cleanedSelftext d)
              then take 497 (cleanedSelftext d) @ ellipsis else cleanedSelftext d
            else [])"
  using assms unfolding normalisePost_def Let_def
  by (auto split: if_splits option.splits)

lemma length_clipped: "500 < length s \<Longrightarrow> length (take 497 s @ ellipsis) = 498"
  by (simp add: ellipsis_def)

text \<open>
  C4 (as amended). When the text to be stored has more than 500 code units, both
  normalisers store its first 497 code units followed by the single code unit U+2026: the
  stored summary is 498 long, not 500, and ends with the ellipsis. A text of at most 500
  code units is stored unchanged. For a feed entry the text is \<open>summaryText\<close>; for a post
  with a body it is \<open>cleanedSelftext\<close>, and a post without a body gets the empty summary.
\<close>

theorem summary_clipped:
  "(normaliseItem E now item src = Inr (Some n) \<longrightarrow>
      (500 < length (summaryText item) \<longrightarrow>
         summary n = take 497 (summaryText item) @ ellipsis \<and> length (summary n) = 498
         \<and> last (summary n) = 0x2026)
      \<and> (length (summaryText item) \<le> 500 \<longrightarrow> summary n = summaryText item))
   \<and> (normalisePost d = Inr (Some n') \<longrightarrow>
      (selftext d \<noteq> [] \<and> 500 < length (cleanedSelftext d) \<longrightarrow>
         summary n' = take 497 (cleanedSelftext d) @ ellipsis \<and> length (summary n') = 498
         \<and> last (summary n') = 0x2026)
      \<and> (selftext d \<noteq> [] \<and> length (cleanedSelftext d) \<le> 500 \<longrightarrow> summary n' = cleanedSelftext d)
      \<and> (selftext d = [] \<longrightarrow> summary n' = []))"
proof (intro conjI impI)
  assume a: "normaliseItem E now item src = Inr (Some n)"
  { assume l: "500 < length (summaryText item)"
    from normaliseItem_summary [OF a] l
    show s: "summary n = take 497 (summaryText item) @ ellipsis" by simp
    show "length (summary n) = 498" using s length_clipped [OF l] by simp
    show "last (summary n) = 0x2026" using s by (simp add: ellipsis_def) }
  { assume "length (summaryText item) \<le> 500"
    with normaliseItem_summary [OF a] show "summary n = summaryText item" by simp }
next
  assume a: "normalisePost d = Inr (Some n')"
  { assume l: "selftext d \<noteq> [] \<and> 500 < length (cleanedSelftext d)"
    from normalisePost_summary [OF a] l
    show s: "summary n' = take 497 (cleanedSelftext d) @ ellipsis" by simp
    show "length (summary n') = 498" using s l length_clipped [of "cleanedSelftext d"] by simp
    show "last (summary n') = 0x2026" using s by (simp add: ellipsis_def) }
  { assume "selftext d \<noteq> [] \<and> length (cleanedSelftext d) \<le> 500"
    with normalisePost_summary [OF a] show "summary n' = cleanedSelftext d" by simp }
  { assume "selftext d = []"
    with normalisePost_summary [OF a] show "summary n' = []" by simp }
qed

lemma longText_nonempty: "longText \<noteq> []"
  using length_longText by auto

lemma summaryText_longItem: "summaryText longItem = longText"
  by (simp add: summaryText_def longItem_def orElse_def trim_longText longText_nonempty)

lemma trim_example_link: "trim (js ''https://example.com/a'') = js ''https://example.com/a''"
  by (rule trim_clean) (simp_all add: js_def isWhiteSpace_def)

lemma trim_T: "trim (js ''T'') = js ''T''"
  by (rule trim_clean) (simp_all add: js_def isWhiteSpace_def)

lemma normaliseItem_longItem:
  "normaliseItem (idleEnv 0) 0 longItem (js ''S'') =
     Inr (Some \<lparr>id_item = makeId (js ''https://example.com/a''), title = js ''T'',
                link = js ''https://example.com/a'', source = js ''S'', publishedAt = 0,
                summary = replicate 497 0x61 @ [0x2026]\<rparr>)"
proof -
  have l: "map_option trim (rss_link longItem) = Some (js ''https://example.com/a'')"
    by (simp add: longItem_def trim_example_link)
  have ne: "js ''https://example.com/a'' \<noteq> []" by (simp add: js_def)
  have "js ''T'' \<noteq> []" by (simp add: js_def)
  then have t: "orElse (map_option trim (rss_title longItem)) (js ''(no title)'') = js ''T''"
    by (simp add: longItem_def trim_T orElse_def)
  have i: "isoDate longItem = None" by (simp add: longItem_def)
  show ?thesis
    unfolding normaliseItem_def Let_def l t i summaryText_longItem
    using ne by (simp add: length_longText ellipsis_def) (simp add: longText_def)
qed


lemma cleanedSelftext_longPost: "cleanedSelftext longPost = longText"
proof -
  have "0x0A \<notin> set longText" by (simp add: longText_def)
  then have "collapseNewlines longText = longText" by (rule collapseNewlines_clean)
  then show ?thesis by (simp add: cleanedSelftext_def longPost_def trim_longText)
qed

lemma normalisePost_longPost:
  "normalisePost longPost =
     Inr (Some \<lparr>id_item = makeId (js ''https://www.reddit.com'' @ js ''/r/news/comments/1/t/''),
                title = js ''T'',
                link = js ''https://www.reddit.com'' @ js ''/r/news/comments/1/t/'',
                source = js ''r/'' @ js ''news'', publishedAt = 1700000000000,
                summary = replicate 497 0x61 @ [0x2026]\<rparr>)"
proof -
  note c = cleanedSelftext_longPost
  have ne: "js ''https://www.reddit.com'' @ js ''/r/news/comments/1/t/'' \<noteq> []"
    by (simp add: js_def)
  have "js ''T'' \<noteq> []" by (simp add: js_def)
  then have t: "trim (js ''T'') \<noteq> []" by (simp add: trim_T)
  have f: "post_title longPost = Some (js ''T'')" "is_self longPost" "\<not> stickied longPost"
    "permalink longPost = js ''/r/news/comments/1/t/''" "created_utc longPost = 1700000000"
    "subreddit longPost = js ''news''" "selftext longPost = longText"
    by (simp_all add: longPost_def)
  show ?thesis
    unfolding normalisePost_def Let_def c
    using ne t by (simp add: f trim_T length_longText longText_nonempty ellipsis_def) (simp add: longText_def)
qed

lemma normalisePost_selfPostWithoutLink:
  "normalisePost selfPostWithoutLink =
     Inr (Some \<lparr>id_item = makeId (js ''https://www.reddit.com''), title = js ''T'',
                link = js ''https://www.reddit.com'', source = js ''r/'' @ js ''news'',
                publishedAt = 1700000000000, summary = []\<rparr>)"
proof -
  have ne: "js ''https://www.reddit.com'' \<noteq> []" by (simp add: js_def)
  have "js ''T'' \<noteq> []" by (simp add: js_def)
  then have t: "trim (js ''T'') \<noteq> []" by (simp add: trim_T)
  have f: "post_title selfPostWithoutLink = Some (js ''T'')" "is_self selfPostWithoutLink"
    "\<not> stickied selfPostWithoutLink" "permalink selfPostWithoutLink = []"
    "created_utc selfPostWithoutLink = 1700000000" "subreddit selfPostWithoutLink = js ''news''"
    "selftext selfPostWithoutLink = []"
    by (simp_all add: selfPostWithoutLink_def)
  show ?thesis
    unfolding normalisePost_def Let_def
    using ne t by (simp add: f trim_T)
qed

lemma normalisePost_untitled:
  "stickied d \<or> post_title d = None \<or> trim (the (post_title d)) = [] \<Longrightarrow> normalisePost d = Inr None"
  by (auto simp: normalisePost_def split: option.splits)

lemma normalisePost_link:
  "normalisePost d = Inr (Some n) \<Longrightarrow>
     link n = (if is_self d then js ''https://www.reddit.com'' @ permalink d else url d)"
  unfolding normalisePost_def Let_def by (auto split: if_splits option.splits)

lemma normalisePost_no_url:
  "\<not> is_self d \<Longrightarrow> url d = [] \<Longrightarrow> normalisePost d = Inr None"
  by (simp add: normalisePost_def)

lemma normalisePost_self_kept:
  assumes "is_self d" "\<not> stickied d" "post_title d = Some t" "trim t \<noteq> []"
  shows "normalisePost d \<noteq> Inr None"
proof -
  have "js ''https://www.reddit.com'' @ permalink d \<noteq> []" by (simp add: js_def)
  then show ?thesis using assms unfolding normalisePost_def Let_def by simp
qed

lemma summaryText_shortItem: "summaryText shortItem = js ''Hi''"
proof -
  have h: "trim (js ''Hi'') = js ''Hi''"
    by (rule trim_clean) (simp_all add: js_def isWhiteSpace_def)
  have "js ''Hi'' \<noteq> []" by (simp add: js_def)
  then show ?thesis
    by (simp add: summaryText_def shortItem_def orElse_def h)
qed

lemma normaliseItem_shortItem:
  "normaliseItem (idleEnv 0) 0 shortItem (js ''S'') =
     Inr (Some \<lparr>id_item = makeId (js ''https://example.com/a''), title = js ''T'',
                link = js ''https://example.com/a'', source = js ''S'', publishedAt = 0,
                summary = js ''Hi''\<rparr>)"
proof -
  have l: "map_option trim (rss_link shortItem) = Some (js ''https://example.com/a'')"
    by (simp add: shortItem_def trim_example_link)
  have ne: "js ''https://example.com/a'' \<noteq> []" by (simp add: js_def)
  have "js ''T'' \<noteq> []" by (simp add: js_def)
  then have t: "orElse (map_option trim (rss_title shortItem)) (js ''(no title)'') = js ''T''"
    by (simp add: shortItem_def trim_T orElse_def)
  note s = summaryText_shortItem
  have i: "isoDate shortItem = None" by (simp add: shortItem_def)
  have len: "length (js ''Hi'') = 2" by (simp add: js_def)
  show ?thesis
    unfolding normaliseItem_def Let_def l t i s
    using ne by (simp add: len)
qed

theorem summary_clipped_witness:
  "normaliseItem (idleEnv 0) 0 longItem (js ''S'') =
     Inr (Some \<lparr>id_item = makeId (js ''https://example.com/a''), title = js ''T'',
                link = js ''https://example.com/a'', source = js ''S'', publishedAt = 0,
                summary = replicate 497 0x61 @ [0x2026]\<rparr>)
   \<and> 500 < length (summaryText longItem)
   \<and> replicate 497 (0x61 :: 16 word) @ [0x2026] = take 497 (summaryText longItem) @ ellipsis
   \<and> length (replicate 497 (0x61 :: 16 word) @ [0x2026]) = 498
   \<and> normaliseItem (idleEnv 0) 0 shortItem (js ''S'') =
     Inr (Some \<lparr>id_item = makeId (js ''https://example.com/a''), title = js ''T'',
                link = js ''https://example.com/a'', source = js ''S'', publishedAt = 0,
                summary = js ''Hi''\<rparr>)
   \<and> length (summaryText shortItem) \<le> 500
   \<and> js ''Hi'' = summaryText shortItem
   \<and> normalisePost longPost =
     Inr (Some \<lparr>id_item = makeId (js ''https://www.reddit.com'' @ js ''/r/news/comments/1/t/''),
                title = js ''T'',
                link = js ''https://www.reddit.com'' @ js ''/r/news/comments/1/t/'',
                source = js ''r/'' @ js ''news'', publishedAt = 1700000000000,
                summary = replicate 497 0x61 @ [0x2026]\<rparr>)
   \<and> selftext longPost \<noteq> [] \<and> 500 < length (cleanedSelftext longPost)
   \<and> replicate 497 (0x61 :: 16 word) @ [0x2026] = take 497 (cleanedSelftext longPost) @ ellipsis"
proof -
  let ?L = "\<lparr>id_item = makeId (js ''https://example.com/a''), title = js ''T'',
             link = js ''https://example.com/a'', source = js ''S'', publishedAt = 0,
             summary = replicate 497 0x61 @ [0x2026]\<rparr>"
  let ?S = "\<lparr>id_item = makeId (js ''https://example.com/a''), title = js ''T'',
             link = js ''https://example.com/a'', source = js ''S'', publishedAt = 0,
             summary = js ''Hi''\<rparr>"
  let ?P = "\<lparr>id_item = makeId (js ''https://www.reddit.com'' @ js ''/r/news/comments/1/t/''),
             title = js ''T'',
             link = js ''https://www.reddit.com'' @ js ''/r/news/comments/1/t/'',
             source = js ''r/'' @ js ''news'', publishedAt = 1700000000000,
             summary = replicate 497 0x61 @ [0x2026]\<rparr>"
  have sl: "500 < length (summaryText longItem)"
    by (simp add: summaryText_longItem length_longText)
  have ss: "length (summaryText shortItem) \<le> 500"
    by (simp add: summaryText_shortItem js_def)
  have st: "selftext longPost \<noteq> []"
    by (simp add: longPost_def longText_nonempty)
  have cl: "500 < length (cleanedSelftext longPost)"
    by (simp add: cleanedSelftext_longPost length_longText)
  have 1: "summary ?L = take 497 (summaryText longItem) @ ellipsis \<and> length (summary ?L) = 498"
    using summary_clipped [of "idleEnv 0" 0 longItem "js ''S''" ?L longPost ?P]
      normaliseItem_longItem sl by blast
  have 2: "summary ?S = summaryText shortItem"
    using summary_clipped [of "idleEnv 0" 0 shortItem "js ''S''" ?S longPost ?P]
      normaliseItem_shortItem ss by blast
  have 3: "summary ?P = take 497 (cleanedSelftext longPost) @ ellipsis"
    using summary_clipped [of "idleEnv 0" 0 longItem "js ''S''" ?L longPost ?P]
      normalisePost_longPost st cl by blast
  from 1 2 3 show ?thesis
    using normaliseItem_longItem normaliseItem_shortItem normalisePost_longPost sl ss st cl
    by (simp add: ellipsis_def)
qed

text \<open>
  A snippet of 501 letters is stored as 498 code units by \<open>normaliseItem\<close>, and a body of
  501 letters as 498 code units by \<open>normalisePost\<close>: neither summary is 500 long.
\<close>

theorem summary_length_counterexample:
  "length (the (contentSnippet longItem)) = 501
   \<and> normaliseItem (idleEnv 0) 0 longItem (js ''S'') =
       Inr (Some \<lparr>id_item = makeId (js ''https://example.com/a''), title = js ''T'',
                  link = js ''https://example.com/a'', source = js ''S'', publishedAt = 0,
                  summary = replicate 497 0x61 @ [0x2026]\<rparr>)
   \<and> length (selftext longPost) = 501
   \<and> normalisePost longPost =
       Inr (Some \<lparr>id_item = makeId (js ''https://www.reddit.com'' @ js ''/r/news/comments/1/t/''),
                  title = js ''T'',
                  link = js ''https://www.reddit.com'' @ js ''/r/news/comments/1/t/'',
                  source = js ''r/'' @ js ''news'', publishedAt = 1700000000000,
                  summary = replicate 497 0x61 @ [0x2026]\<rparr>)
   \<and> length (replicate 497 (0x61 :: 16 word) @ [0x2026]) = 498
   \<and> length (replicate 497 (0x61 :: 16 word) @ [0x2026]) \<noteq> 500"
  using normaliseItem_longItem normalisePost_longPost
  by (simp add: longItem_def longPost_def length_longText)

text \<open>
  C8. \<open>normalisePost\<close> drops stickied posts and posts without a title, takes \<open>url\<close> as the
  link of a link post and the permalink under \<open>https://www.reddit.com\<close> as the link of a
  self post, and drops a link post whose \<open>url\<close> is empty (the four lemmas above). A self
  post whose \<open>permalink\<close> and \<open>url\<close> are both empty is nevertheless kept, with the bare
  site address as its link: the check \<open>if (!link) return null\<close> never fires for a self
  post.
\<close>

theorem self_post_without_link_is_kept:
  "is_self selfPostWithoutLink \<and> permalink selfPostWithoutLink = []
   \<and> url selfPostWithoutLink = []
   \<and> normalisePost selfPostWithoutLink =
       Inr (Some \<lparr>id_item = makeId (js ''https://www.reddit.com''), title = js ''T'',
                  link = js ''https://www.reddit.com'', source = js ''r/'' @ js ''news'',
                  publishedAt = 1700000000000, summary = []\<rparr>)"
  using normalisePost_selfPostWithoutLink by (simp add: selfPostWithoutLink_def)

section \<open>Redirects in \<open>fetchJSON\<close>\<close>


lemma fetchJSON_not_followed:
  "\<not> followedThrough (get u) \<Longrightarrow> \<exists>r. fetchJSON get u = Some r"
  by (subst fetchJSON.simps)
    (auto simp: followedThrough_def split: http_reply.splits option.splits)

lemma fetchJSON_followed:
  "followedThrough (get u) \<Longrightarrow> fetchJSON get u = fetchJSON get (the (location (get u)))"
  by (subst fetchJSON.simps) (auto simp: followedThrough_def split: http_reply.splits)

lemma chainEnds_settles: "chainEnds n get u \<Longrightarrow> \<exists>r. fetchJSON get u = Some r"
proof (induction n arbitrary: u)
  case 0
  then show ?case by (simp add: fetchJSON_not_followed)
next
  case (Suc n)
  show ?case
  proof (cases "followedThrough (get u)")
    case True
    with Suc.prems have "chainEnds n get (the (location (get u)))" by simp
    from Suc.IH [OF this] show ?thesis using fetchJSON_followed [of get u] True by simp
  next
    case False
    then show ?thesis by (rule fetchJSON_not_followed)
  qed
qed















section \<open>The fetchers and their caches\<close>

lemma fetchFeed_eq: "fetchFeed E u = Some (Inr (feedItems E u))"
  by (simp add: fetchFeed_def feedItems_def split: sum.splits)

lemma Promise_all_fulfilled:
  "Promise_all (map (\<lambda>x. Some (Inr (f x))) xs) = Some (Inr (map f xs))"
  by (induction xs) simp_all

lemma Promise_all_rejected:
  "Promise_all ps = Some (Inl e) \<Longrightarrow> Some (Inl e) \<in> set ps"
  by (induction ps) (auto split: option.splits sum.splits)

lemma Promise_all_pending:
  "Promise_all ps = None \<Longrightarrow> None \<in> set ps"
  by (induction ps) (auto split: option.splits sum.splits)

lemma Promise_all_feeds:
  "Promise_all (map (fetchFeed E) us) = Some (Inr (map (feedItems E) us))"
proof -
  have "map (fetchFeed E) us = map (\<lambda>u. Some (Inr (feedItems E u))) us"
    by (simp add: fetchFeed_eq)
  then show ?thesis by (simp only: Promise_all_fulfilled)
qed

lemma getNews_hit:
  "cacheValid (rss_cache m) (rss_now_check E) \<Longrightarrow>
     getNews E m = (Some (Inr (data (the (rss_cache m)))), m)"
  by (simp add: getNews_def)

lemma getNews_miss:
  "\<not> cacheValid (rss_cache m) (rss_now_check E) \<Longrightarrow>
     getNews E m =
       (Some (Inr (freshNews E)),
        \<lparr>rss_cache = Some \<lparr>data = freshNews E, expiresAt = rss_now_store E + CACHE_TTL_MS\<rparr>,
         parseURL_calls = parseURL_calls m @ RSS_FEED_URLS\<rparr>)"
  by (simp add: getNews_def Promise_all_feeds freshNews_def Let_def)

lemma getNews_fulfils: "\<exists>its. fst (getNews E m) = Some (Inr its)"
  by (cases "cacheValid (rss_cache m) (rss_now_check E)") (simp_all add: getNews_hit getNews_miss)

lemma feedItems_failed: "fetchFeed_try E u = Inl e \<Longrightarrow> feedItems E u = []"
  by (simp add: feedItems_def)

lemma concat_map_filter_nonempty:
  "(\<And>x. x \<in> set xs \<Longrightarrow> \<not> P x \<Longrightarrow> f x = []) \<Longrightarrow> concat (map f (filter P xs)) = concat (map f xs)"
  by (induction xs) auto

lemma freshNews_successful:
  "freshNews E =
     sortBy comparePublishedAt
       (dedupByLink (concat (map (feedItems E) (filter (\<lambda>u. \<not> isl (fetchFeed_try E u)) RSS_FEED_URLS))))"
proof -
  have "concat (map (feedItems E) (filter (\<lambda>u. \<not> isl (fetchFeed_try E u)) RSS_FEED_URLS))
          = concat (map (feedItems E) RSS_FEED_URLS)"
    by (rule concat_map_filter_nonempty) (auto simp: feedItems_def split: sum.splits)
  then show ?thesis by (simp add: freshNews_def)
qed

lemma fetchSubreddit_cases:
  "fetchSubreddit E name = (if fetchSubreddit_try E name = None then None
                            else Some (Inr (subredditItems E name)))"
  by (simp add: fetchSubreddit_def subredditItems_def split: option.splits sum.splits)

lemma fetchSubreddit_never_rejects: "fetchSubreddit E name \<noteq> Some (Inl e)"
  by (simp add: fetchSubreddit_cases)

lemma fetchSubreddit_try_None:
  "fetchSubreddit_try E name = None \<longleftrightarrow> fetchJSON (https_get E) (listingURL name) = None"
  by (simp add: fetchSubreddit_try_def split: option.splits sum.splits json.splits)

lemma settles_fetchSubreddit:
  assumes "settles E" "name \<in> set SUBREDDITS"
  shows "fetchSubreddit E name = Some (Inr (subredditItems E name))"
proof -
  from assms obtain n where "chainEnds n (https_get E) (listingURL name)"
    unfolding settles_def by blast
  then have "fetchJSON (https_get E) (listingURL name) \<noteq> None"
    using chainEnds_settles by fastforce
  then show ?thesis by (simp add: fetchSubreddit_cases fetchSubreddit_try_None)
qed

lemma Promise_all_subreddits:
  assumes "settles E"
  shows "Promise_all (map (fetchSubreddit E) SUBREDDITS) = Some (Inr (map (subredditItems E) SUBREDDITS))"
proof -
  have "map (fetchSubreddit E) SUBREDDITS = map (\<lambda>n. Some (Inr (subredditItems E n))) SUBREDDITS"
    using settles_fetchSubreddit [OF assms] by simp
  then show ?thesis by (simp only: Promise_all_fulfilled)
qed

lemma getRedditNews_hit:
  "cacheValid (reddit_cache m) (reddit_now_check E) \<Longrightarrow>
     getRedditNews E m = (Some (Inr (data (the (reddit_cache m)))), m)"
  by (simp add: getRedditNews_def)

lemma getRedditNews_miss:
  "\<not> cacheValid (reddit_cache m) (reddit_now_check E) \<Longrightarrow> settles E \<Longrightarrow>
     getRedditNews E m =
       (Some (Inr (freshReddit E)),
        \<lparr>reddit_cache = Some \<lparr>data = freshReddit E, expiresAt = reddit_now_store E + CACHE_TTL_MS\<rparr>,
         fetchJSON_calls = fetchJSON_calls m @ map listingURL SUBREDDITS\<rparr>)"
  by (simp add: getRedditNews_def Promise_all_subreddits freshReddit_def Let_def)

lemma getRedditNews_never_rejects: "fst (getRedditNews E m) \<noteq> Some (Inl e)"
proof
  assume a: "fst (getRedditNews E m) = Some (Inl e)"
  then have "Promise_all (map (fetchSubreddit E) SUBREDDITS) = Some (Inl e)"
    by (auto simp: getRedditNews_def Let_def split: if_splits option.splits sum.splits)
  from Promise_all_rejected [OF this]
  obtain name where "fetchSubreddit E name = Some (Inl e)" by (auto simp: image_iff)
  then show False using fetchSubreddit_never_rejects by blast
qed

lemma GET_never_500: "fst (GET E srv) \<noteq> Some Response_500"
proof
  assume a: "fst (GET E srv) = Some Response_500"
  obtain p1 m1 where g1: "getNews E (rss srv) = (p1, m1)" by (cases "getNews E (rss srv)")
  obtain p2 m2 where g2: "getRedditNews E (reddit srv) = (p2, m2)"
    by (cases "getRedditNews E (reddit srv)")
  from a g1 g2 obtain e where "Promise_all [p1, p2] = Some (Inl e)"
    unfolding GET_def Let_def by (auto simp del: Promise_all.simps split: option.splits sum.splits)
  from Promise_all_rejected [OF this] have "p1 = Some (Inl e) \<or> p2 = Some (Inl e)" by auto
  moreover have "p1 \<noteq> Some (Inl e)" using getNews_fulfils [of E "rss srv"] g1 by auto
  moreover have "p2 \<noteq> Some (Inl e)" using getRedditNews_never_rejects [of E "reddit srv" e] g2 by simp
  ultimately show False by blast
qed

lemma GET_responds:
  assumes "fst (getNews E (rss srv)) = Some (Inr rssItems)"
    and "fst (getRedditNews E (reddit srv)) = Some (Inr redditItems)"
  shows "fst (GET E srv) =
           Some (Response_200 (length (sortBy comparePublishedAt (dedupByLink (rssItems @ redditItems))))
                   (sortBy comparePublishedAt (dedupByLink (rssItems @ redditItems))))"
proof -
  obtain p1 m1 where g1: "getNews E (rss srv) = (p1, m1)" by (cases "getNews E (rss srv)")
  obtain p2 m2 where g2: "getRedditNews E (reddit srv) = (p2, m2)"
    by (cases "getRedditNews E (reddit srv)")
  show ?thesis using assms g1 g2 by (simp add: GET_def Let_def)
qed


lemma trim_Feed: "trim (js ''Feed'') = js ''Feed''"
  by (rule trim_clean) (simp_all add: js_def isWhiteSpace_def)

lemma fetchFeed_try_flaky:
  assumes "u \<noteq> RSS_FEED_URLS ! 1" "u \<noteq> RSS_FEED_URLS ! 3" "trim u = u" "u \<noteq> []"
  shows "fetchFeed_try (flakyEnv t) u = Inr [flakyItem t u]"
proof -
  have f: "js ''Feed'' \<noteq> []" "js ''T'' \<noteq> []" by (simp_all add: js_def)
  have "extractSource (flakyEnv t)
          \<lparr>feed_title = Some (js ''Feed''), feed_link = None,
            feed_items = [\<lparr>rss_link = Some u, rss_title = Some (js ''T''),
                            contentSnippet = None, content = None, isoDate = None\<rparr>]\<rparr>
        = Inr (js ''Feed'')"
    using f by (simp add: extractSource_def trim_Feed)
  moreover have "normaliseItem (flakyEnv t) (t + int (length u))
          \<lparr>rss_link = Some u, rss_title = Some (js ''T''),
            contentSnippet = None, content = None, isoDate = None\<rparr> (js ''Feed'')
        = Inr (Some (flakyItem t u))"
    using f assms(3,4)
    by (simp add: normaliseItem_def summaryText_def orElse_def trim_T flakyItem_def)
  ultimately show ?thesis
    using assms(1,2) by (simp add: fetchFeed_try_def flakyEnv_def)
qed

lemma RSS_FEED_URLS_list:
  "RSS_FEED_URLS = [RSS_FEED_URLS ! 0, RSS_FEED_URLS ! 1, RSS_FEED_URLS ! 2, RSS_FEED_URLS ! 3,
                    RSS_FEED_URLS ! 4]"
  by (simp add: RSS_FEED_URLS_def)

lemma RSS_FEED_URLS_differ:
  "RSS_FEED_URLS ! 0 \<noteq> RSS_FEED_URLS ! 1" "RSS_FEED_URLS ! 0 \<noteq> RSS_FEED_URLS ! 3"
  "RSS_FEED_URLS ! 2 \<noteq> RSS_FEED_URLS ! 1" "RSS_FEED_URLS ! 2 \<noteq> RSS_FEED_URLS ! 3"
  "RSS_FEED_URLS ! 4 \<noteq> RSS_FEED_URLS ! 1" "RSS_FEED_URLS ! 4 \<noteq> RSS_FEED_URLS ! 3"
  "RSS_FEED_URLS ! 3 \<noteq> RSS_FEED_URLS ! 1"
  "RSS_FEED_URLS ! 0 \<noteq> RSS_FEED_URLS ! 2" "RSS_FEED_URLS ! 0 \<noteq> RSS_FEED_URLS ! 4"
  "RSS_FEED_URLS ! 2 \<noteq> RSS_FEED_URLS ! 4"
  by (simp_all add: RSS_FEED_URLS_def js_def)

lemma RSS_FEED_URLS_length:
  "length (RSS_FEED_URLS ! 0) = 57" "length (RSS_FEED_URLS ! 2) = 37"
  "length (RSS_FEED_URLS ! 4) = 45"
  by (simp_all add: RSS_FEED_URLS_def js_def)

lemma flaky_feeds:
  "fetchFeed_try (flakyEnv t) (RSS_FEED_URLS ! 0) = Inr [flakyItem t (RSS_FEED_URLS ! 0)]"
  "fetchFeed_try (flakyEnv t) (RSS_FEED_URLS ! 1) = Inl NetworkError"
  "fetchFeed_try (flakyEnv t) (RSS_FEED_URLS ! 2) = Inr [flakyItem t (RSS_FEED_URLS ! 2)]"
  "fetchFeed_try (flakyEnv t) (RSS_FEED_URLS ! 3) = Inl Timeout"
  "fetchFeed_try (flakyEnv t) (RSS_FEED_URLS ! 4) = Inr [flakyItem t (RSS_FEED_URLS ! 4)]"
proof -
  note d = RSS_FEED_URLS_differ
  have t: "trim (RSS_FEED_URLS ! 0) = RSS_FEED_URLS ! 0" "trim (RSS_FEED_URLS ! 2) = RSS_FEED_URLS ! 2"
    "trim (RSS_FEED_URLS ! 4) = RSS_FEED_URLS ! 4"
    by (rule trim_clean; simp add: RSS_FEED_URLS_def js_def isWhiteSpace_def)+
  have n: "RSS_FEED_URLS ! 0 \<noteq> []" "RSS_FEED_URLS ! 2 \<noteq> []" "RSS_FEED_URLS ! 4 \<noteq> []"
    by (simp_all add: RSS_FEED_URLS_def js_def)
  show "fetchFeed_try (flakyEnv t) (RSS_FEED_URLS ! 0) = Inr [flakyItem t (RSS_FEED_URLS ! 0)]"
    by (rule fetchFeed_try_flaky [OF d(1,2) t(1) n(1)])
  show "fetchFeed_try (flakyEnv t) (RSS_FEED_URLS ! 2) = Inr [flakyItem t (RSS_FEED_URLS ! 2)]"
    by (rule fetchFeed_try_flaky [OF d(3,4) t(2) n(2)])
  show "fetchFeed_try (flakyEnv t) (RSS_FEED_URLS ! 4) = Inr [flakyItem t (RSS_FEED_URLS ! 4)]"
    by (rule fetchFeed_try_flaky [OF d(5,6) t(3) n(3)])
  show "fetchFeed_try (flakyEnv t) (RSS_FEED_URLS ! 1) = Inl NetworkError"
    by (simp add: fetchFeed_try_def flakyEnv_def)
  show "fetchFeed_try (flakyEnv t) (RSS_FEED_URLS ! 3) = Inl Timeout"
    using d(7) by (simp add: fetchFeed_try_def flakyEnv_def)
qed

lemma feedItems_flaky:
  "map (feedItems (flakyEnv t)) RSS_FEED_URLS =
     [[flakyItem t (RSS_FEED_URLS ! 0)], [], [flakyItem t (RSS_FEED_URLS ! 2)], [],
      [flakyItem t (RSS_FEED_URLS ! 4)]]"
  by (subst RSS_FEED_URLS_list) (simp only: list.map feedItems_def flaky_feeds sum.case)

lemma successful_flaky:
  "filter (\<lambda>u. \<not> isl (fetchFeed_try (flakyEnv t) u)) RSS_FEED_URLS =
     [RSS_FEED_URLS ! 0, RSS_FEED_URLS ! 2, RSS_FEED_URLS ! 4]"
  by (subst RSS_FEED_URLS_list) (simp only: filter.simps flaky_feeds sum.disc simp_thms if_True if_False)

lemma sorted_flaky:
  "sortBy comparePublishedAt
     (dedupByLink [flakyItem t (RSS_FEED_URLS ! 0), flakyItem t (RSS_FEED_URLS ! 2),
                   flakyItem t (RSS_FEED_URLS ! 4)]) =
     [flakyItem t (RSS_FEED_URLS ! 0), flakyItem t (RSS_FEED_URLS ! 4), flakyItem t (RSS_FEED_URLS ! 2)]"
  using RSS_FEED_URLS_differ
  by (simp add: dedupByLink_def sortBy_def comparePublishedAt_def flakyItem_def RSS_FEED_URLS_length)

lemma freshNews_flaky:
  "freshNews (flakyEnv t) =
     [flakyItem t (RSS_FEED_URLS ! 0), flakyItem t (RSS_FEED_URLS ! 4), flakyItem t (RSS_FEED_URLS ! 2)]"
  using sorted_flaky [of t] by (simp add: freshNews_def feedItems_flaky)

lemma fetchJSON_flaky: "fetchJSON (https_get (flakyEnv t)) u = Some (Inl NetworkError)"
  by (subst fetchJSON.simps) (simp add: flakyEnv_def)

lemma settles_flaky: "settles (flakyEnv t)"
proof -
  have "chainEnds 0 (https_get (flakyEnv t)) u" for u
    by (simp add: flakyEnv_def followedThrough_def)
  then show ?thesis unfolding settles_def by blast
qed

lemma freshReddit_flaky: "freshReddit (flakyEnv t) = []"
  by (simp add: freshReddit_def subredditItems_def fetchSubreddit_try_def fetchJSON_flaky)

lemma GET_flaky:
  "fst (GET (flakyEnv 0) coldServer) =
     Some (Response_200 3
       [flakyItem 0 (RSS_FEED_URLS ! 0), flakyItem 0 (RSS_FEED_URLS ! 4), flakyItem 0 (RSS_FEED_URLS ! 2)])"
proof -
  have r: "fst (getNews (flakyEnv 0) (rss coldServer)) = Some (Inr (freshNews (flakyEnv 0)))"
    by (simp add: getNews_miss cacheValid_def coldServer_def)
  have k: "fst (getRedditNews (flakyEnv 0) (reddit coldServer)) = Some (Inr [])"
    using getRedditNews_miss [OF _ settles_flaky, of "reddit coldServer" 0]
    by (simp add: cacheValid_def coldServer_def freshReddit_flaky)
  have "dedupByLink (freshNews (flakyEnv 0)) = freshNews (flakyEnv 0)"
    using RSS_FEED_URLS_differ by (simp add: freshNews_flaky dedupByLink_def flakyItem_def)
  moreover have "sortBy comparePublishedAt (freshNews (flakyEnv 0)) = freshNews (flakyEnv 0)"
    by (simp add: freshNews_flaky sortBy_def comparePublishedAt_def flakyItem_def RSS_FEED_URLS_length)
  ultimately show ?thesis
    by (simp add: GET_responds [OF r k]) (simp add: freshNews_flaky)
qed

text \<open>
  C1. Neither fetcher fails its caller. \<open>fetchFeed\<close> always fulfils, with the empty
  array when its \<open>try\<close> block throws; \<open>fetchSubreddit\<close> never rejects, and fulfils with
  the empty array when its \<open>try\<close> block rejects. So \<open>getNews\<close> always fulfils, and when
  it fetches, its result is computed from exactly the feeds that did not fail;
  \<open>getRedditNews\<close> never rejects; \<open>GET\<close> never answers with status 500, and it answers
  with status 200 whenever the Reddit requests settle or the Reddit cache is valid.
\<close>

theorem fetchers_never_fail:
  "(\<exists>its. fetchFeed E u = Some (Inr its))
   \<and> (\<forall>e. fetchFeed_try E u = Inl e \<longrightarrow> fetchFeed E u = Some (Inr []))
   \<and> (\<forall>e. fetchSubreddit E name \<noteq> Some (Inl e))
   \<and> (\<forall>e. fetchSubreddit_try E name = Some (Inl e) \<longrightarrow> fetchSubreddit E name = Some (Inr []))
   \<and> (\<exists>its. fst (getNews E m) = Some (Inr its))
   \<and> (\<not> cacheValid (rss_cache m) (rss_now_check E) \<longrightarrow>
        fst (getNews E m) =
          Some (Inr (sortBy comparePublishedAt
            (dedupByLink (concat (map (feedItems E)
               (filter (\<lambda>u. \<not> isl (fetchFeed_try E u)) RSS_FEED_URLS)))))))
   \<and> (\<forall>e. fst (getRedditNews E k) \<noteq> Some (Inl e))
   \<and> fst (GET E srv) \<noteq> Some Response_500
   \<and> (settles E \<or> cacheValid (reddit_cache (reddit srv)) (reddit_now_check E) \<longrightarrow>
        (\<exists>its. fst (GET E srv) = Some (Response_200 (length its) its)))"
proof (intro conjI allI impI)
  show "\<exists>its. fetchFeed E u = Some (Inr its)" by (simp add: fetchFeed_eq)
next
  fix e assume "fetchFeed_try E u = Inl e"
  then show "fetchFeed E u = Some (Inr [])" by (simp add: fetchFeed_def)
next
  fix e show "fetchSubreddit E name \<noteq> Some (Inl e)" by (rule fetchSubreddit_never_rejects)
next
  fix e assume "fetchSubreddit_try E name = Some (Inl e)"
  then show "fetchSubreddit E name = Some (Inr [])" by (simp add: fetchSubreddit_def)
next
  show "\<exists>its. fst (getNews E m) = Some (Inr its)" by (rule getNews_fulfils)
next
  assume "\<not> cacheValid (rss_cache m) (rss_now_check E)"
  then show "fst (getNews E m) =
          Some (Inr (sortBy comparePublishedAt
            (dedupByLink (concat (map (feedItems E)
               (filter (\<lambda>u. \<not> isl (fetchFeed_try E u)) RSS_FEED_URLS))))))"
    using freshNews_successful [of E] by (simp add: getNews_miss)
next
  fix e show "fst (getRedditNews E k) \<noteq> Some (Inl e)" by (rule getRedditNews_never_rejects)
next
  show "fst (GET E srv) \<noteq> Some Response_500" by (rule GET_never_500)
next
  assume a: "settles E \<or> cacheValid (reddit_cache (reddit srv)) (reddit_now_check E)"
  obtain r where r: "fst (getNews E (rss srv)) = Some (Inr r)"
    using getNews_fulfils by blast
  have "\<exists>d. fst (getRedditNews E (reddit srv)) = Some (Inr d)"
  proof (cases "cacheValid (reddit_cache (reddit srv)) (reddit_now_check E)")
    case True
    then show ?thesis by (simp add: getRedditNews_hit)
  next
    case False
    with a have "settles E" by simp
    with False show ?thesis by (simp add: getRedditNews_miss)
  qed
  then obtain d where d: "fst (getRedditNews E (reddit srv)) = Some (Inr d)" ..
  from GET_responds [OF r d] show "\<exists>its. fst (GET E srv) = Some (Response_200 (length its) its)"
    by blast
qed

theorem fetchers_never_fail_witness:
  "fetchFeed_try (flakyEnv 0) (RSS_FEED_URLS ! 1) = Inl NetworkError
   \<and> fetchFeed (flakyEnv 0) (RSS_FEED_URLS ! 1) = Some (Inr [])
   \<and> fetchFeed_try (flakyEnv 0) (RSS_FEED_URLS ! 3) = Inl Timeout
   \<and> fetchSubreddit_try (flakyEnv 0) (js ''news'') = Some (Inl NetworkError)
   \<and> fetchSubreddit (flakyEnv 0) (js ''news'') = Some (Inr [])
   \<and> \<not> cacheValid (rss_cache (rss coldServer)) (rss_now_check (flakyEnv 0))
   \<and> filter (\<lambda>u. \<not> isl (fetchFeed_try (flakyEnv 0) u)) RSS_FEED_URLS =
       [RSS_FEED_URLS ! 0, RSS_FEED_URLS ! 2, RSS_FEED_URLS ! 4]
   \<and> fst (getNews (flakyEnv 0) (rss coldServer)) =
       Some (Inr [flakyItem 0 (RSS_FEED_URLS ! 0), flakyItem 0 (RSS_FEED_URLS ! 4),
                  flakyItem 0 (RSS_FEED_URLS ! 2)])
   \<and> settles (flakyEnv 0)
   \<and> fst (GET (flakyEnv 0) coldServer) =
       Some (Response_200 3 [flakyItem 0 (RSS_FEED_URLS ! 0), flakyItem 0 (RSS_FEED_URLS ! 4),
                             flakyItem 0 (RSS_FEED_URLS ! 2)])"
proof -
  note T = fetchers_never_fail [of "flakyEnv 0" "RSS_FEED_URLS ! 1" "js ''news''" "rss coldServer"
      "reddit coldServer" coldServer]
  have f1: "fetchFeed_try (flakyEnv 0) (RSS_FEED_URLS ! 1) = Inl NetworkError"
    by (rule flaky_feeds)
  have s1: "fetchSubreddit_try (flakyEnv 0) (js ''news'') = Some (Inl NetworkError)"
    by (simp add: fetchSubreddit_try_def fetchJSON_flaky)
  have c: "\<not> cacheValid (rss_cache (rss coldServer)) (rss_now_check (flakyEnv 0))"
    by (simp add: cacheValid_def coldServer_def)
  have 1: "fetchFeed (flakyEnv 0) (RSS_FEED_URLS ! 1) = Some (Inr [])"
    using T f1 by blast
  have 2: "fetchSubreddit (flakyEnv 0) (js ''news'') = Some (Inr [])"
    using T s1 by blast
  have "fst (getNews (flakyEnv 0) (rss coldServer)) =
          Some (Inr (sortBy comparePublishedAt
            (dedupByLink (concat (map (feedItems (flakyEnv 0))
               (filter (\<lambda>u. \<not> isl (fetchFeed_try (flakyEnv 0) u)) RSS_FEED_URLS))))))"
    using T c by blast
  then have 3: "fst (getNews (flakyEnv 0) (rss coldServer)) =
       Some (Inr [flakyItem 0 (RSS_FEED_URLS ! 0), flakyItem 0 (RSS_FEED_URLS ! 4),
                  flakyItem 0 (RSS_FEED_URLS ! 2)])"
    by (simp only: successful_flaky list.map feedItems_def flaky_feeds sum.case concat.simps
          append.simps sorted_flaky)
  show ?thesis
    using f1 1 flaky_feeds(4) [of 0] s1 2 c successful_flaky [of 0] 3 settles_flaky [of 0] GET_flaky
    by simp
qed

lemma fetchJSON_echo: "fetchJSON (https_get (echoEnv t)) u = Some (Inr (Listing twoPosts))"
  by (subst fetchJSON.simps) (simp add: echoEnv_def isRedirect_def)

lemma normalisePosts_twoPosts: "normalisePosts twoPosts [] = Inr echoItems"
proof -
  have "js ''T'' \<noteq> []" by (simp add: js_def)
  then have t: "trim (js ''T'') \<noteq> []" by (simp add: trim_T)
  have u: "js ''https://example.com/a'' \<noteq> []" "js ''https://example.com/b'' \<noteq> []"
    by (simp_all add: js_def)
  show ?thesis
    using t u by (simp add: twoPosts_def normalisePost_def echoItems_def trim_T Let_def)
qed

lemma subredditItems_echo: "subredditItems (echoEnv t) name = echoItems"
  by (simp add: subredditItems_def fetchSubreddit_try_def fetchJSON_echo normalisePosts_twoPosts)

lemma settles_echo: "settles (echoEnv t)"
proof -
  have "chainEnds 0 (https_get (echoEnv t)) u" for u
    by (simp add: echoEnv_def followedThrough_def isRedirect_def)
  then show ?thesis unfolding settles_def by blast
qed

lemma freshReddit_echo:
  "freshReddit (echoEnv t) = echoItems @ echoItems @ echoItems @ echoItems @ echoItems @ echoItems"
  by (simp add: freshReddit_def subredditItems_echo SUBREDDITS_def)

lemma echo_not_distinct:
  "\<not> distinct (map link (echoItems @ echoItems @ echoItems @ echoItems @ echoItems @ echoItems))"
  by (simp add: echoItems_def)

lemma echo_not_descending:
  "\<not> descending (echoItems @ echoItems @ echoItems @ echoItems @ echoItems @ echoItems)"
  by (simp add: echoItems_def descending_def)

lemma filter_sorted_dedup:
  "filter (\<lambda>i. link i = l) (sortBy cmp (dedupByLink xs)) =
     (case find (\<lambda>i. link i = l) xs of None \<Rightarrow> [] | Some x \<Rightarrow> [x])"
proof (cases "find (\<lambda>i. link i = l) xs")
  case None
  then have "\<forall>x \<in> set xs. link x \<noteq> l" by (simp add: find_None_iff)
  moreover have "set (sortBy cmp (dedupByLink xs)) \<subseteq> set xs"
    using dedupLoop_subset [of "{}" xs] by (simp add: set_sortBy dedupByLink_def)
  ultimately have "\<forall>x \<in> set (sortBy cmp (dedupByLink xs)). link x \<noteq> l" by blast
  then show ?thesis using None by (simp add: filter_empty_conv)
next
  case (Some x)
  then have "find (\<lambda>i. link i = l) (dedupByLink xs) = Some x"
    by (simp add: dedupByLink_def find_dedupLoop)
  then have x: "link x = l" "x \<in> set (sortBy cmp (dedupByLink xs))"
    using find_Some_set [of "\<lambda>i. link i = l" "dedupByLink xs" x] by (simp_all add: set_sortBy)
  have "distinct (map link (sortBy cmp (dedupByLink xs)))"
    by (simp add: distinct_map_sortBy dedupByLink_def distinct_dedupLoop)
  from filter_distinct_key [OF this x(2)] x(1) Some show ?thesis by simp
qed

lemma freshNews_distinct: "distinct (map link (freshNews E))"
  by (simp add: freshNews_def distinct_map_sortBy dedupByLink_def distinct_dedupLoop)

lemma freshNews_descending: "descending (freshNews E)"
  by (simp add: freshNews_def descending_sortBy)

text \<open>
  C10. What \<open>getNews\<close> returns and caches is already free of duplicate links and in
  descending order of \<open>publishedAt\<close>: this holds for the cache from the start of the
  process on, and when \<open>getNews\<close> fetches, its result is the sorted, deduplicated
  concatenation of the feeds' items, in which every link appears once, with the first item
  that carries it in feed order. \<open>getRedditNews\<close>, when it fetches, returns and caches the
  plain concatenation of the subreddits' items: with an upstream that serves the same two
  posts for every subreddit, its result repeats links and is not in descending order.
\<close>

theorem rss_presorted_reddit_raw:
  "(cacheOK m \<longrightarrow>
      (\<exists>its. fst (getNews E m) = Some (Inr its) \<and> distinct (map link its) \<and> descending its)
      \<and> cacheOK (snd (getNews E m)))
   \<and> (\<not> cacheValid (rss_cache m) (rss_now_check E) \<longrightarrow>
      fst (getNews E m) =
        Some (Inr (sortBy comparePublishedAt (dedupByLink (concat (map (feedItems E) RSS_FEED_URLS)))))
      \<and> map_option data (rss_cache (snd (getNews E m))) =
        Some (sortBy comparePublishedAt (dedupByLink (concat (map (feedItems E) RSS_FEED_URLS))))
      \<and> (\<forall>l. filter (\<lambda>i. link i = l)
                (sortBy comparePublishedAt (dedupByLink (concat (map (feedItems E) RSS_FEED_URLS)))) =
              (case find (\<lambda>i. link i = l) (concat (map (feedItems E) RSS_FEED_URLS)) of
                 None \<Rightarrow> [] | Some x \<Rightarrow> [x])))
   \<and> (\<not> cacheValid (reddit_cache k) (reddit_now_check E) \<and> settles E \<longrightarrow>
      fst (getRedditNews E k) = Some (Inr (concat (map (subredditItems E) SUBREDDITS)))
      \<and> map_option data (reddit_cache (snd (getRedditNews E k))) =
        Some (concat (map (subredditItems E) SUBREDDITS)))
   \<and> fst (getRedditNews (echoEnv 0) (reddit coldServer)) =
       Some (Inr (echoItems @ echoItems @ echoItems @ echoItems @ echoItems @ echoItems))
   \<and> \<not> distinct (map link (echoItems @ echoItems @ echoItems @ echoItems @ echoItems @ echoItems))
   \<and> \<not> descending (echoItems @ echoItems @ echoItems @ echoItems @ echoItems @ echoItems)"
proof (intro conjI impI allI)
  assume ok: "cacheOK m"
  show "\<exists>its. fst (getNews E m) = Some (Inr its) \<and> distinct (map link its) \<and> descending its"
  proof (cases "cacheValid (rss_cache m) (rss_now_check E)")
    case True
    then obtain c where c: "rss_cache m = Some c" by (auto simp: cacheValid_def split: option.splits)
    with ok have "distinct (map link (data c)) \<and> descending (data c)" by (simp add: cacheOK_def)
    with True c show ?thesis by (simp add: getNews_hit)
  next
    case False
    then show ?thesis by (simp add: getNews_miss freshNews_distinct freshNews_descending)
  qed
  show "cacheOK (snd (getNews E m))"
  proof (cases "cacheValid (rss_cache m) (rss_now_check E)")
    case True
    with ok show ?thesis by (simp add: getNews_hit)
  next
    case False
    then show ?thesis by (simp add: getNews_miss cacheOK_def freshNews_distinct freshNews_descending)
  qed
next
  assume miss: "\<not> cacheValid (rss_cache m) (rss_now_check E)"
  show "fst (getNews E m) =
        Some (Inr (sortBy comparePublishedAt (dedupByLink (concat (map (feedItems E) RSS_FEED_URLS)))))"
    using miss by (simp add: getNews_miss freshNews_def)
  show "map_option data (rss_cache (snd (getNews E m))) =
        Some (sortBy comparePublishedAt (dedupByLink (concat (map (feedItems E) RSS_FEED_URLS))))"
    using miss by (simp add: getNews_miss freshNews_def)
next
  fix l
  show "filter (\<lambda>i. link i = l)
          (sortBy comparePublishedAt (dedupByLink (concat (map (feedItems E) RSS_FEED_URLS)))) =
        (case find (\<lambda>i. link i = l) (concat (map (feedItems E) RSS_FEED_URLS)) of
           None \<Rightarrow> [] | Some x \<Rightarrow> [x])"
    by (rule filter_sorted_dedup)
next
  assume a: "\<not> cacheValid (reddit_cache k) (reddit_now_check E) \<and> settles E"
  show "fst (getRedditNews E k) = Some (Inr (concat (map (subredditItems E) SUBREDDITS)))"
    using a by (simp add: getRedditNews_miss freshReddit_def)
  show "map_option data (reddit_cache (snd (getRedditNews E k))) =
        Some (concat (map (subredditItems E) SUBREDDITS))"
    using a by (simp add: getRedditNews_miss freshReddit_def)
next
  show "fst (getRedditNews (echoEnv 0) (reddit coldServer)) =
       Some (Inr (echoItems @ echoItems @ echoItems @ echoItems @ echoItems @ echoItems))"
    using getRedditNews_miss [OF _ settles_echo, of "reddit coldServer" 0]
    by (simp add: cacheValid_def coldServer_def freshReddit_echo)
next
  show "\<not> distinct (map link (echoItems @ echoItems @ echoItems @ echoItems @ echoItems @ echoItems))"
    by (rule echo_not_distinct)
next
  show "\<not> descending (echoItems @ echoItems @ echoItems @ echoItems @ echoItems @ echoItems)"
    by (rule echo_not_descending)
qed

theorem rss_presorted_reddit_raw_witness:
  "cacheOK (rss coldServer)
   \<and> \<not> cacheValid (rss_cache (rss coldServer)) (rss_now_check (flakyEnv 0))
   \<and> fst (getNews (flakyEnv 0) (rss coldServer)) =
       Some (Inr [flakyItem 0 (RSS_FEED_URLS ! 0), flakyItem 0 (RSS_FEED_URLS ! 4),
                  flakyItem 0 (RSS_FEED_URLS ! 2)])
   \<and> cacheOK (snd (getNews (flakyEnv 0) (rss coldServer)))
   \<and> \<not> cacheValid (reddit_cache (reddit coldServer)) (reddit_now_check (echoEnv 0))
   \<and> settles (echoEnv 0)
   \<and> fst (getRedditNews (echoEnv 0) (reddit coldServer)) =
       Some (Inr (concat (map (subredditItems (echoEnv 0)) SUBREDDITS)))"
proof -
  note R = rss_presorted_reddit_raw [of "rss coldServer" "flakyEnv 0" "reddit coldServer"]
  note D = rss_presorted_reddit_raw [of "rss coldServer" "echoEnv 0" "reddit coldServer"]
  have ok: "cacheOK (rss coldServer)" by (simp add: cacheOK_def coldServer_def)
  have miss: "\<not> cacheValid (rss_cache (rss coldServer)) (rss_now_check (flakyEnv 0))"
    by (simp add: cacheValid_def coldServer_def)
  have miss': "\<not> cacheValid (reddit_cache (reddit coldServer)) (reddit_now_check (echoEnv 0))"
    by (simp add: cacheValid_def coldServer_def)
  have 1: "cacheOK (snd (getNews (flakyEnv 0) (rss coldServer)))" using R ok by blast
  have "fst (getNews (flakyEnv 0) (rss coldServer)) =
        Some (Inr (sortBy comparePublishedAt
          (dedupByLink (concat (map (feedItems (flakyEnv 0)) RSS_FEED_URLS)))))"
    using R miss by blast
  then have 2: "fst (getNews (flakyEnv 0) (rss coldServer)) =
       Some (Inr [flakyItem 0 (RSS_FEED_URLS ! 0), flakyItem 0 (RSS_FEED_URLS ! 4),
                  flakyItem 0 (RSS_FEED_URLS ! 2)])"
    using freshNews_flaky [of 0] by (simp add: freshNews_def)
  have 3: "fst (getRedditNews (echoEnv 0) (reddit coldServer)) =
       Some (Inr (concat (map (subredditItems (echoEnv 0)) SUBREDDITS)))"
    using D miss' settles_echo [of 0] by blast
  from ok miss 1 2 miss' settles_echo [of 0] 3 show ?thesis by simp
qed

lemma CACHE_TTL_MS_value: "CACHE_TTL_MS = 300000"
  by (simp add: CACHE_TTL_MS_def)

text \<open>
  C6. The time to live is 5 minutes. Take a call of \<open>getNews\<close> that finds no valid cache
  and so fetches, storing its result with the expiry time five minutes after the moment
  of the store. A second call whose clock reading is before that expiry time returns the
  stored data and leaves the module state as it is: no further \<open>parseURL\<close> call is made.
  A call whose clock reading has reached the expiry time fetches again: the feeds are
  requested a second time, and the cache holds the new data with a new expiry time. The
  same holds for \<open>getRedditNews\<close>, provided its requests settle.
\<close>

theorem cache_ttl:
  fixes E1 E2 E3 :: env and m0 :: rss_module and k0 :: reddit_module
  defines "m1 \<equiv> snd (getNews E1 m0)" and "k1 \<equiv> snd (getRedditNews E1 k0)"
  shows
  "(\<not> cacheValid (rss_cache m0) (rss_now_check E1)
     \<and> rss_now_check E2 < rss_now_store E1 + 5 * 60 * 1000
     \<and> rss_now_store E1 + 5 * 60 * 1000 \<le> rss_now_check E3 \<longrightarrow>
       fst (getNews E1 m0) = Some (Inr (freshNews E1))
     \<and> m1 = \<lparr>rss_cache = Some \<lparr>data = freshNews E1, expiresAt = rss_now_store E1 + 5 * 60 * 1000\<rparr>,
             parseURL_calls = parseURL_calls m0 @ RSS_FEED_URLS\<rparr>
     \<and> getNews E2 m1 = (Some (Inr (freshNews E1)), m1)
     \<and> getNews E3 m1 =
         (Some (Inr (freshNews E3)),
          \<lparr>rss_cache = Some \<lparr>data = freshNews E3, expiresAt = rss_now_store E3 + 5 * 60 * 1000\<rparr>,
           parseURL_calls = parseURL_calls m0 @ RSS_FEED_URLS @ RSS_FEED_URLS\<rparr>))
   \<and> (\<not> cacheValid (reddit_cache k0) (reddit_now_check E1) \<and> settles E1 \<and> settles E3
     \<and> reddit_now_check E2 < reddit_now_store E1 + 5 * 60 * 1000
     \<and> reddit_now_store E1 + 5 * 60 * 1000 \<le> reddit_now_check E3 \<longrightarrow>
       fst (getRedditNews E1 k0) = Some (Inr (freshReddit E1))
     \<and> k1 = \<lparr>reddit_cache = Some \<lparr>data = freshReddit E1,
                                   expiresAt = reddit_now_store E1 + 5 * 60 * 1000\<rparr>,
             fetchJSON_calls = fetchJSON_calls k0 @ map listingURL SUBREDDITS\<rparr>
     \<and> getRedditNews E2 k1 = (Some (Inr (freshReddit E1)), k1)
     \<and> getRedditNews E3 k1 =
         (Some (Inr (freshReddit E3)),
          \<lparr>reddit_cache = Some \<lparr>data = freshReddit E3,
                                expiresAt = reddit_now_store E3 + 5 * 60 * 1000\<rparr>,
           fetchJSON_calls = fetchJSON_calls k0 @ map listingURL SUBREDDITS @ map listingURL SUBREDDITS\<rparr>))"
proof (intro conjI impI)
  assume a: "\<not> cacheValid (rss_cache m0) (rss_now_check E1)
     \<and> rss_now_check E2 < rss_now_store E1 + 5 * 60 * 1000
     \<and> rss_now_store E1 + 5 * 60 * 1000 \<le> rss_now_check E3"
  then have g1: "getNews E1 m0 =
      (Some (Inr (freshNews E1)),
       \<lparr>rss_cache = Some \<lparr>data = freshNews E1, expiresAt = rss_now_store E1 + 5 * 60 * 1000\<rparr>,
        parseURL_calls = parseURL_calls m0 @ RSS_FEED_URLS\<rparr>)"
    by (simp add: getNews_miss CACHE_TTL_MS_def)
  then show "fst (getNews E1 m0) = Some (Inr (freshNews E1))" by simp
  from g1 show m1: "m1 = \<lparr>rss_cache = Some \<lparr>data = freshNews E1, expiresAt = rss_now_store E1 + 5 * 60 * 1000\<rparr>,
             parseURL_calls = parseURL_calls m0 @ RSS_FEED_URLS\<rparr>"
    by (simp add: m1_def)
  have hit: "cacheValid (rss_cache m1) (rss_now_check E2)"
    using a by (simp add: m1 cacheValid_def)
  from getNews_hit [OF hit] show "getNews E2 m1 = (Some (Inr (freshNews E1)), m1)"
    by (simp add: m1)
  have miss: "\<not> cacheValid (rss_cache m1) (rss_now_check E3)"
    using a by (simp add: m1 cacheValid_def)
  from getNews_miss [OF miss] show "getNews E3 m1 =
         (Some (Inr (freshNews E3)),
          \<lparr>rss_cache = Some \<lparr>data = freshNews E3, expiresAt = rss_now_store E3 + 5 * 60 * 1000\<rparr>,
           parseURL_calls = parseURL_calls m0 @ RSS_FEED_URLS @ RSS_FEED_URLS\<rparr>)"
    by (simp add: m1 CACHE_TTL_MS_def)
next
  assume a: "\<not> cacheValid (reddit_cache k0) (reddit_now_check E1) \<and> settles E1 \<and> settles E3
     \<and> reddit_now_check E2 < reddit_now_store E1 + 5 * 60 * 1000
     \<and> reddit_now_store E1 + 5 * 60 * 1000 \<le> reddit_now_check E3"
  then have g1: "getRedditNews E1 k0 =
      (Some (Inr (freshReddit E1)),
       \<lparr>reddit_cache = Some \<lparr>data = freshReddit E1, expiresAt = reddit_now_store E1 + 5 * 60 * 1000\<rparr>,
        fetchJSON_calls = fetchJSON_calls k0 @ map listingURL SUBREDDITS\<rparr>)"
    by (simp add: getRedditNews_miss CACHE_TTL_MS_def)
  then show "fst (getRedditNews E1 k0) = Some (Inr (freshReddit E1))" by simp
  from g1 show k1: "k1 = \<lparr>reddit_cache = Some \<lparr>data = freshReddit E1,
                                   expiresAt = reddit_now_store E1 + 5 * 60 * 1000\<rparr>,
             fetchJSON_calls = fetchJSON_calls k0 @ map listingURL SUBREDDITS\<rparr>"
    by (simp add: k1_def)
  have hit: "cacheValid (reddit_cache k1) (reddit_now_check E2)"
    using a by (simp add: k1 cacheValid_def)
  from getRedditNews_hit [OF hit] show "getRedditNews E2 k1 = (Some (Inr (freshReddit E1)), k1)"
    by (simp add: k1)
  have miss: "\<not> cacheValid (reddit_cache k1) (reddit_now_check E3)"
    using a by (simp add: k1 cacheValid_def)
  from a have s3: "settles E3" by simp
  from getRedditNews_miss [OF miss s3] show "getRedditNews E3 k1 =
         (Some (Inr (freshReddit E3)),
          \<lparr>reddit_cache = Some \<lparr>data = freshReddit E3,
                                expiresAt = reddit_now_store E3 + 5 * 60 * 1000\<rparr>,
           fetchJSON_calls = fetchJSON_calls k0 @ map listingURL SUBREDDITS @ map listingURL SUBREDDITS\<rparr>)"
    by (simp add: k1 CACHE_TTL_MS_def)
qed

theorem cache_ttl_witness:
  "\<not> cacheValid (rss_cache (rss coldServer)) (rss_now_check (flakyEnv 0))
   \<and> rss_now_check (flakyEnv 300000) < rss_now_store (flakyEnv 0) + 5 * 60 * 1000
   \<and> rss_now_store (flakyEnv 0) + 5 * 60 * 1000 \<le> rss_now_check (flakyEnv 300001)
   \<and> getNews (flakyEnv 300000) (snd (getNews (flakyEnv 0) (rss coldServer))) =
       (Some (Inr [flakyItem 0 (RSS_FEED_URLS ! 0), flakyItem 0 (RSS_FEED_URLS ! 4),
                   flakyItem 0 (RSS_FEED_URLS ! 2)]),
        \<lparr>rss_cache = Some \<lparr>data = [flakyItem 0 (RSS_FEED_URLS ! 0), flakyItem 0 (RSS_FEED_URLS ! 4),
                                    flakyItem 0 (RSS_FEED_URLS ! 2)],
                            expiresAt = 300001\<rparr>,
         parseURL_calls = RSS_FEED_URLS\<rparr>)
   \<and> getNews (flakyEnv 300001) (snd (getNews (flakyEnv 0) (rss coldServer))) =
       (Some (Inr [flakyItem 300001 (RSS_FEED_URLS ! 0), flakyItem 300001 (RSS_FEED_URLS ! 4),
                   flakyItem 300001 (RSS_FEED_URLS ! 2)]),
        \<lparr>rss_cache = Some \<lparr>data = [flakyItem 300001 (RSS_FEED_URLS ! 0),
                                    flakyItem 300001 (RSS_FEED_URLS ! 4),
                                    flakyItem 300001 (RSS_FEED_URLS ! 2)],
                            expiresAt = 600002\<rparr>,
         parseURL_calls = RSS_FEED_URLS @ RSS_FEED_URLS\<rparr>)
   \<and> \<not> cacheValid (reddit_cache (reddit coldServer)) (reddit_now_check (echoEnv 0))
   \<and> settles (echoEnv 0) \<and> settles (echoEnv 300001)
   \<and> reddit_now_check (echoEnv 300000) < reddit_now_store (echoEnv 0) + 5 * 60 * 1000
   \<and> reddit_now_store (echoEnv 0) + 5 * 60 * 1000 \<le> reddit_now_check (echoEnv 300001)
   \<and> getRedditNews (echoEnv 300000) (snd (getRedditNews (echoEnv 0) (reddit coldServer))) =
       (Some (Inr (echoItems @ echoItems @ echoItems @ echoItems @ echoItems @ echoItems)),
        \<lparr>reddit_cache =
           Some \<lparr>data = echoItems @ echoItems @ echoItems @ echoItems @ echoItems @ echoItems,
                 expiresAt = 300001\<rparr>,
         fetchJSON_calls = map listingURL SUBREDDITS\<rparr>)
   \<and> getRedditNews (echoEnv 300001) (snd (getRedditNews (echoEnv 0) (reddit coldServer))) =
       (Some (Inr (echoItems @ echoItems @ echoItems @ echoItems @ echoItems @ echoItems)),
        \<lparr>reddit_cache =
           Some \<lparr>data = echoItems @ echoItems @ echoItems @ echoItems @ echoItems @ echoItems,
                 expiresAt = 600002\<rparr>,
         fetchJSON_calls = map listingURL SUBREDDITS @ map listingURL SUBREDDITS\<rparr>)"
proof -
  note R = cache_ttl [of "rss coldServer" "flakyEnv 0" "flakyEnv 300000" "flakyEnv 300001"
      "reddit coldServer"]
  note D = cache_ttl [of "rss coldServer" "echoEnv 0" "echoEnv 300000" "echoEnv 300001"
      "reddit coldServer"]
  have h1: "\<not> cacheValid (rss_cache (rss coldServer)) (rss_now_check (flakyEnv 0))"
    "\<not> cacheValid (reddit_cache (reddit coldServer)) (reddit_now_check (echoEnv 0))"
    by (simp_all add: cacheValid_def coldServer_def)
  have h2: "rss_now_check (flakyEnv 300000) < rss_now_store (flakyEnv 0) + 5 * 60 * 1000"
    "rss_now_store (flakyEnv 0) + 5 * 60 * 1000 \<le> rss_now_check (flakyEnv 300001)"
    by (simp_all add: flakyEnv_def)
  have h3: "reddit_now_check (echoEnv 300000) < reddit_now_store (echoEnv 0) + 5 * 60 * 1000"
    "reddit_now_store (echoEnv 0) + 5 * 60 * 1000 \<le> reddit_now_check (echoEnv 300001)"
    by (simp_all add: echoEnv_def)
  have st: "rss_now_store (flakyEnv 0) = 1" "rss_now_store (flakyEnv 300001) = 300002"
    "reddit_now_store (echoEnv 0) = 1" "reddit_now_store (echoEnv 300001) = 300002"
    "parseURL_calls (rss coldServer) = []" "fetchJSON_calls (reddit coldServer) = []"
    by (simp_all add: flakyEnv_def echoEnv_def coldServer_def)
  have r2: "getNews (flakyEnv 300000) (snd (getNews (flakyEnv 0) (rss coldServer))) =
       (Some (Inr (freshNews (flakyEnv 0))), snd (getNews (flakyEnv 0) (rss coldServer)))"
    using R h1(1) h2 by blast
  have "snd (getNews (flakyEnv 0) (rss coldServer)) =
       \<lparr>rss_cache = Some \<lparr>data = freshNews (flakyEnv 0),
                           expiresAt = rss_now_store (flakyEnv 0) + 5 * 60 * 1000\<rparr>,
        parseURL_calls = parseURL_calls (rss coldServer) @ RSS_FEED_URLS\<rparr>"
    using R h1(1) h2 by blast
  then have r1: "snd (getNews (flakyEnv 0) (rss coldServer)) =
       \<lparr>rss_cache = Some \<lparr>data = freshNews (flakyEnv 0), expiresAt = 300001\<rparr>,
        parseURL_calls = RSS_FEED_URLS\<rparr>"
    by (simp add: st)
  have "getNews (flakyEnv 300001) (snd (getNews (flakyEnv 0) (rss coldServer))) =
       (Some (Inr (freshNews (flakyEnv 300001))),
        \<lparr>rss_cache = Some \<lparr>data = freshNews (flakyEnv 300001),
                            expiresAt = rss_now_store (flakyEnv 300001) + 5 * 60 * 1000\<rparr>,
         parseURL_calls = parseURL_calls (rss coldServer) @ RSS_FEED_URLS @ RSS_FEED_URLS\<rparr>)"
    using R h1(1) h2 by blast
  then have r3: "getNews (flakyEnv 300001) (snd (getNews (flakyEnv 0) (rss coldServer))) =
       (Some (Inr (freshNews (flakyEnv 300001))),
        \<lparr>rss_cache = Some \<lparr>data = freshNews (flakyEnv 300001), expiresAt = 600002\<rparr>,
         parseURL_calls = RSS_FEED_URLS @ RSS_FEED_URLS\<rparr>)"
    by (simp add: st)
  note s = settles_echo [of 0] settles_echo [of 300001]
  have d2: "getRedditNews (echoEnv 300000) (snd (getRedditNews (echoEnv 0) (reddit coldServer))) =
       (Some (Inr (freshReddit (echoEnv 0))), snd (getRedditNews (echoEnv 0) (reddit coldServer)))"
    using D h1(2) h3 s by blast
  have "snd (getRedditNews (echoEnv 0) (reddit coldServer)) =
       \<lparr>reddit_cache = Some \<lparr>data = freshReddit (echoEnv 0),
                              expiresAt = reddit_now_store (echoEnv 0) + 5 * 60 * 1000\<rparr>,
        fetchJSON_calls = fetchJSON_calls (reddit coldServer) @ map listingURL SUBREDDITS\<rparr>"
    using D h1(2) h3 s by blast
  then have d1: "snd (getRedditNews (echoEnv 0) (reddit coldServer)) =
       \<lparr>reddit_cache = Some \<lparr>data = freshReddit (echoEnv 0), expiresAt = 300001\<rparr>,
        fetchJSON_calls = map listingURL SUBREDDITS\<rparr>"
    by (simp add: st)
  have "getRedditNews (echoEnv 300001) (snd (getRedditNews (echoEnv 0) (reddit coldServer))) =
       (Some (Inr (freshReddit (echoEnv 300001))),
        \<lparr>reddit_cache = Some \<lparr>data = freshReddit (echoEnv 300001),
                               expiresAt = reddit_now_store (echoEnv 300001) + 5 * 60 * 1000\<rparr>,
         fetchJSON_calls = fetchJSON_calls (reddit coldServer) @ map listingURL SUBREDDITS
                             @ map listingURL SUBREDDITS\<rparr>)"
    using D h1(2) h3 s by blast
  then have d3: "getRedditNews (echoEnv 300001) (snd (getRedditNews (echoEnv 0) (reddit coldServer))) =
       (Some (Inr (freshReddit (echoEnv 300001))),
        \<lparr>reddit_cache = Some \<lparr>data = freshReddit (echoEnv 300001), expiresAt = 600002\<rparr>,
         fetchJSON_calls = map listingURL SUBREDDITS @ map listingURL SUBREDDITS\<rparr>)"
    by (simp add: st)
  show ?thesis
    using h1 h2 h3 s
    by (simp add: r2 r3 d2 d3) (simp add: r1 d1 freshNews_flaky freshReddit_echo)
qed

section \<open>The identity function\<close>

lemma length_be32: "length (be32 x) = 4"
  by (simp add: be32_def)

lemma length_sha256: "length (sha256 m) = 32"
proof -
  obtain a b c d e f g h where "foldl compress H256 (blocks (pad m)) = (a, b, c, d, e, f, g, h)"
    by (metis prod_cases7 prod.exhaust)
  then show ?thesis by (simp add: sha256_def length_be32)
qed

lemma length_hex: "length (hex bs) = 2 * length bs"
  by (induction bs) (simp_all add: hex_def)

lemma length_makeId: "length (makeId l) = 16"
  by (simp add: makeId_def length_hex length_sha256)

lemma hexdigit_range: "n < 16 \<Longrightarrow> hexdigit n \<in> set (js ''0123456789abcdef'')"
proof (cases "n < 10")
  case True
  then have "n \<in> set [0, 1, 2, 3, 4, 5, 6, 7, 8, 9]" by simp arith
  then show ?thesis by (auto simp: hexdigit_def js_def)
next
  case False
  assume "n < 16"
  with False have "n \<in> set [10, 11, 12, 13, 14, 15]" by simp arith
  then show ?thesis by (auto simp: hexdigit_def js_def)
qed

lemma set_hex: "set (hex bs) \<subseteq> set (js ''0123456789abcdef'')"
proof (induction bs)
  case Nil
  show ?case by (simp add: hex_def)
next
  case (Cons b bs)
  have "unat b div 16 < 16" using unsigned_less [of b, where 'a = nat] by simp
  then have 1: "hexdigit (unat b div 16) \<in> set (js ''0123456789abcdef'')" by (rule hexdigit_range)
  have "unat b mod 16 < 16" by simp
  then have 2: "hexdigit (unat b mod 16) \<in> set (js ''0123456789abcdef'')" by (rule hexdigit_range)
  have "hex (b # bs) = hexdigit (unat b div 16) # hexdigit (unat b mod 16) # hex bs"
    by (simp add: hex_def)
  with 1 2 Cons show ?case by simp
qed

lemma set_makeId: "set (makeId l) \<subseteq> set (js ''0123456789abcdef'')"
  using set_hex [of "sha256 (utf8 l)"] set_take_subset [of 16 "hex (sha256 (utf8 l))"]
  by (auto simp: makeId_def)

lemma finite_ids: "finite (range makeId)"
proof -
  have "range makeId \<subseteq> {xs. set xs \<subseteq> (UNIV :: 16 word set) \<and> length xs = 16}"
    by (auto simp: length_makeId)
  moreover have "finite {xs. set xs \<subseteq> (UNIV :: 16 word set) \<and> length xs = 16}"
    by (rule finite_lists_length_eq) simp
  ultimately show ?thesis by (rule finite_subset)
qed

lemma makeId_not_inj: "\<not> inj makeId"
proof
  assume "inj makeId"
  with finite_ids have "finite (UNIV :: js_string set)" by (rule finite_imageD)
  then show False using infinite_UNIV_listI by blast
qed

lemma https_collision:
  "\<exists>a b. a \<noteq> b \<and> makeId (js ''https://'' @ a) = makeId (js ''https://'' @ b)"
proof (rule ccontr)
  assume "\<not> ?thesis"
  then have "inj (\<lambda>a. makeId (js ''https://'' @ a))" by (auto simp: inj_def)
  moreover have "finite (range (\<lambda>a. makeId (js ''https://'' @ a)))"
    by (rule finite_subset [OF _ finite_ids]) auto
  ultimately have "finite (UNIV :: js_string set)" by (rule finite_imageD [rotated])
  then show False using infinite_UNIV_listI by blast
qed

lemma utf8_lone_surrogates: "utf8 [0xD800] = utf8 [0xD801]"
  by (simp add: isHigh_def)

lemma normaliseItem_id:
  "normaliseItem E now item src = Inr (Some n) \<Longrightarrow> id_item n = makeId (link n)"
  unfolding normaliseItem_def Let_def by (auto split: if_splits option.splits)

lemma normalisePost_id:
  "normalisePost d = Inr (Some n) \<Longrightarrow> id_item n = makeId (link n)"
  unfolding normalisePost_def Let_def by (auto split: if_splits option.splits)

text \<open>
  Two different strings with the same id: each is a single unpaired surrogate, and both
  are hashed as U+FFFD.
\<close>

theorem makeId_collision_counterexample:
  "[0xD800] \<noteq> [0xD801 :: 16 word] \<and> makeId [0xD800] = makeId [0xD801]"
proof -
  have "makeId [0xD800] = makeId [0xD801]"
    unfolding makeId_def utf8_lone_surrogates ..
  then show ?thesis by simp
qed

text \<open>
  C7 (as amended). \<open>makeId\<close> is a function of the link alone: every id is 16 lower-case
  hexadecimal digits, and the id of every item that a normaliser builds is \<open>makeId\<close> of
  that item's link, whatever the environment. Different links do not always get different
  ids: \<open>makeId\<close> is not injective, and even among the links that begin with
  \<open>https://\<close> two different ones share an id.
\<close>

theorem makeId_fixed_length:
  "length (makeId l) = 16
   \<and> set (makeId l) \<subseteq> set (js ''0123456789abcdef'')
   \<and> (normaliseItem E now item src = Inr (Some n) \<longrightarrow> id_item n = makeId (link n))
   \<and> (normalisePost d = Inr (Some n') \<longrightarrow> id_item n' = makeId (link n'))
   \<and> \<not> inj makeId
   \<and> (\<exists>a b. a \<noteq> b \<and> makeId (js ''https://'' @ a) = makeId (js ''https://'' @ b))"
  using length_makeId set_makeId normaliseItem_id normalisePost_id makeId_not_inj https_collision
  by blast


text \<open>The test vector of FIPS 180-4 for the message \<open>abc\<close>.\<close>

lemma sha256_abc:
  "hex (sha256 (utf8 (js ''abc''))) =
     js ''ba7816bf8f01cfea414140de5dae2223b00361a396177a9cb410ff61f20015ad''"
  by code_simp

lemma makeId_abc: "makeId (js ''abc'') = js ''ba7816bf8f01cfea''"
  unfolding makeId_def sha256_abc by (simp add: js_def)

theorem makeId_fixed_length_witness:
  "makeId (js ''abc'') = js ''ba7816bf8f01cfea''
   \<and> length (makeId (js ''abc'')) = 16
   \<and> normaliseItem (idleEnv 0) 0 shortItem (js ''S'') =
       Inr (Some \<lparr>id_item = makeId (js ''https://example.com/a''), title = js ''T'',
                  link = js ''https://example.com/a'', source = js ''S'', publishedAt = 0,
                  summary = js ''Hi''\<rparr>)
   \<and> normalisePost longPost =
       Inr (Some \<lparr>id_item = makeId (js ''https://www.reddit.com'' @ js ''/r/news/comments/1/t/''),
                  title = js ''T'',
                  link = js ''https://www.reddit.com'' @ js ''/r/news/comments/1/t/'',
                  source = js ''r/'' @ js ''news'', publishedAt = 1700000000000,
                  summary = replicate 497 0x61 @ [0x2026]\<rparr>)"
proof -
  let ?S = "\<lparr>id_item = makeId (js ''https://example.com/a''), title = js ''T'',
             link = js ''https://example.com/a'', source = js ''S'', publishedAt = 0,
             summary = js ''Hi''\<rparr>"
  let ?P = "\<lparr>id_item = makeId (js ''https://www.reddit.com'' @ js ''/r/news/comments/1/t/''),
             title = js ''T'',
             link = js ''https://www.reddit.com'' @ js ''/r/news/comments/1/t/'',
             source = js ''r/'' @ js ''news'', publishedAt = 1700000000000,
             summary = replicate 497 0x61 @ [0x2026]\<rparr>"
  note T = makeId_fixed_length [of "js ''abc''" "idleEnv 0" 0 shortItem "js ''S''" ?S longPost ?P]
  have "length (makeId (js ''abc'')) = 16" using T by blast
  moreover have "id_item ?S = makeId (link ?S)" using T normaliseItem_shortItem by blast
  moreover have "id_item ?P = makeId (link ?P)" using T normalisePost_longPost by blast
  ultimately show ?thesis
    using makeId_abc normaliseItem_shortItem normalisePost_longPost by simp
qed

end
